theory Spec2Isabelle
  imports
    Main
    "HOL-Library.Sublist"
    "HOL-Library.Char_ord"
    "HOL-Library.List_Lexorder"
    "HOL-Library.AList"
begin

section \<open>Go string primitives\<close>

text \<open>
  A Go \<^verbatim>\<open>string\<close> is a byte sequence, modelled as \<^typ>\<open>string\<close> (a list of
  \<^typ>\<open>char\<close>, one per byte). Every separator the program searches for is ASCII, and
  no byte of a multi-byte UTF-8 sequence is an ASCII byte, so the byte view and Go's rune
  view agree on all functions below.
\<close>

text \<open>\<^verbatim>\<open>strings.Cut(s, sep)\<close>: the text before and after the first occurrence of
  \<open>sep\<close>, or \<open>None\<close> when \<open>sep\<close> does not occur.\<close>

fun Cut :: "string \<Rightarrow> string \<Rightarrow> (string \<times> string) option" where
  "Cut sep [] = (if sep = [] then Some ([], []) else None)"
| "Cut sep (c # cs) =
     (if prefix sep (c # cs) then Some ([], drop (length sep) (c # cs))
      else map_option (\<lambda>(a, b). (c # a, b)) (Cut sep cs))"

text \<open>\<^verbatim>\<open>strings.SplitN(s, sep, 2)\<close> for a non-empty \<open>sep\<close>: one part when \<open>sep\<close>
  does not occur, otherwise the two parts around its first occurrence.\<close>

definition SplitN2 :: "string \<Rightarrow> string \<Rightarrow> string list" where
  "SplitN2 s sep = (case Cut sep s of None \<Rightarrow> [s] | Some (a, b) \<Rightarrow> [a, b])"

text \<open>\<^verbatim>\<open>strings.ReplaceAll(s, old, new)\<close> for a non-empty \<open>old\<close>: the
  non-overlapping occurrences of \<open>old\<close>, found from left to right, are replaced. The
  program only passes the constants \<^verbatim>\<open>"/"\<close> and \<^verbatim>\<open>"__"\<close> as \<open>old\<close>; for an
  empty \<open>old\<close> (where Go inserts \<open>new\<close> around every rune) the model returns \<open>s\<close>.\<close>

function ReplaceAll :: "string \<Rightarrow> string \<Rightarrow> string \<Rightarrow> string" where
  "ReplaceAll [] old new = []"
| "ReplaceAll (c # cs) old new =
     (if old \<noteq> [] \<and> prefix old (c # cs)
      then new @ ReplaceAll (drop (length old - 1) cs) old new
      else c # ReplaceAll cs old new)"
  by pat_completeness auto
termination
  by (relation "measure (\<lambda>(s, old, new). length s)") auto

text \<open>\<^verbatim>\<open>strings.TrimRight(s, cutset)\<close>: all trailing bytes that are in \<open>cutset\<close>
  are removed.\<close>

definition TrimRight :: "string \<Rightarrow> string \<Rightarrow> string" where
  "TrimRight s cutset = rev (dropWhile (\<lambda>c. c \<in> set cutset) (rev s))"

text \<open>\<^verbatim>\<open>strings.TrimSuffix(s, suffix)\<close>: one trailing occurrence of the suffix is
  removed, if there is one.\<close>

definition TrimSuffix :: "string \<Rightarrow> string \<Rightarrow> string" where
  "TrimSuffix s suf =
     (if prefix (rev suf) (rev s) then take (length s - length suf) s else s)"

text \<open>\<^verbatim>\<open>strings.HasPrefix\<close>.\<close>

definition HasPrefix :: "string \<Rightarrow> string \<Rightarrow> bool" where
  "HasPrefix s p = prefix p s"

text \<open>\<^verbatim>\<open>strings.Index(s, sep)\<close> for a one-byte separator: the index of its first
  occurrence, or \<open>-1\<close>.\<close>

definition Index :: "string \<Rightarrow> char \<Rightarrow> int" where
  "Index s c =
     (if c \<in> set s then int (length (takeWhile (\<lambda>x. x \<noteq> c) s)) else - 1)"

text \<open>\<^verbatim>\<open>strings.LastIndex(s, sep)\<close> for a one-byte separator: the index of its last
  occurrence, or \<open>-1\<close>.\<close>

definition LastIndex :: "string \<Rightarrow> char \<Rightarrow> int" where
  "LastIndex s c =
     (if c \<in> set s
      then int (length s - 1 - length (takeWhile (\<lambda>x. x \<noteq> c) (rev s)))
      else - 1)"


section \<open>Skill identifiers (\<^verbatim>\<open>internal/config/config.go\<close>)\<close>

text \<open>\<^verbatim>\<open>GetSafeName\<close>: the directory name of a skill identifier.\<close>

definition GetSafeName :: "string \<Rightarrow> string" where
  "GetSafeName ident =
     (let parts = SplitN2 ident '':'' in
      if length parts < 2 then ReplaceAll ident ''/'' ''__''
      else (parts ! 0) @ ''__'' @ ReplaceAll (parts ! 1) ''/'' ''__'')"

text \<open>\<^verbatim>\<open>ParseSafeName\<close>: from a directory name back to an identifier.\<close>

definition ParseSafeName :: "string \<Rightarrow> string" where
  "ParseSafeName safeName =
     (let parts = SplitN2 safeName ''__'' in
      if length parts < 2 then safeName
      else (parts ! 0) @ '':'' @ ReplaceAll (parts ! 1) ''__'' ''/'')"

text \<open>\<^verbatim>\<open>GetLinkName\<close>: the name of a skill's link in a project directory.\<close>

definition GetLinkName :: "string \<Rightarrow> string" where
  "GetLinkName ident =
     (let parts = SplitN2 ident '':'';
          name = (if length parts = 2 then parts ! 1 else ident);
          idx = LastIndex name (CHR ''/'')
      in if idx \<ge> 0 then drop (nat (idx + 1)) name else name)"


section \<open>URL normalisation (\<^verbatim>\<open>internal/git/git.go\<close>)\<close>

record URLInfo =
  URL :: string
  Branch :: string
  Path :: string

text \<open>
  The two regular expressions of \<^verbatim>\<open>NormalizeURL\<close> are anchored at both ends and
  built from literals, the class \<^verbatim>\<open>[^/]+\<close> and a final \<^verbatim>\<open>.+\<close>. A group
  \<^verbatim>\<open>[^/]+\<close> is always followed by a literal \<^verbatim>\<open>/\<close> or by the end of the text, so
  it can only match the whole run of bytes up to the next slash: the match, when there is
  one, is unique and is found by reading the text from left to right.
\<close>

text \<open>A literal at the start of the text; the result is the rest.\<close>

definition lit :: "string \<Rightarrow> string \<Rightarrow> string option" where
  "lit p s = (if prefix p s then Some (drop (length p) s) else None)"

text \<open>\<^verbatim>\<open>[^/]+\<close> followed by a slash or the end: the non-empty run of bytes before
  the next slash, and the rest.\<close>

definition seg :: "string \<Rightarrow> (string \<times> string) option" where
  "seg s =
     (let a = takeWhile (\<lambda>c. c \<noteq> CHR ''/'') s in
      if a = [] then None else Some (a, dropWhile (\<lambda>c. c \<noteq> CHR ''/'') s))"

text \<open>\<^verbatim>\<open>^(https://github\.com/[^/]+/[^/]+)\<close>: the first group and the rest.\<close>

definition repoRe :: "string \<Rightarrow> (string \<times> string) option" where
  "repoRe url =
     (case lit ''https://github.com/'' url of None \<Rightarrow> None | Some r1 \<Rightarrow>
      (case seg r1 of None \<Rightarrow> None | Some (owner, r2) \<Rightarrow>
       (case lit ''/'' r2 of None \<Rightarrow> None | Some r3 \<Rightarrow>
        (case seg r3 of None \<Rightarrow> None | Some (repo, r4) \<Rightarrow>
           Some (''https://github.com/'' @ owner @ ''/'' @ repo, r4)))))"

text \<open>\<^verbatim>\<open>^(https://github\.com/[^/]+/[^/]+)/tree/([^/]+)/(.+)$\<close>: the three groups.
  Without the \<^verbatim>\<open>s\<close> flag \<^verbatim>\<open>.\<close> does not match a line feed, and without the
  \<^verbatim>\<open>m\<close> flag \<^verbatim>\<open>$\<close> is the end of the text.\<close>

definition treePathRe :: "string \<Rightarrow> (string \<times> string \<times> string) option" where
  "treePathRe url =
     (case repoRe url of None \<Rightarrow> None | Some (m1, r) \<Rightarrow>
      (case lit ''/tree/'' r of None \<Rightarrow> None | Some r5 \<Rightarrow>
       (case seg r5 of None \<Rightarrow> None | Some (m2, r6) \<Rightarrow>
        (case lit ''/'' r6 of None \<Rightarrow> None | Some m3 \<Rightarrow>
           if m3 \<noteq> [] \<and> CHR 0x0A \<notin> set m3 then Some (m1, m2, m3) else None))))"

text \<open>\<^verbatim>\<open>^(https://github\.com/[^/]+/[^/]+)/tree/([^/]+)$\<close>: the two groups.\<close>

definition treeBranchRe :: "string \<Rightarrow> (string \<times> string) option" where
  "treeBranchRe url =
     (case repoRe url of None \<Rightarrow> None | Some (m1, r) \<Rightarrow>
      (case lit ''/tree/'' r of None \<Rightarrow> None | Some r5 \<Rightarrow>
       (case seg r5 of None \<Rightarrow> None | Some (m2, r6) \<Rightarrow>
          if r6 = [] then Some (m1, m2) else None)))"

text \<open>\<^verbatim>\<open>url = url[:idx]\<close> when \<^verbatim>\<open>strings.Index(url, c)\<close> is not \<open>-1\<close>.\<close>

definition stripFrom :: "char \<Rightarrow> string \<Rightarrow> string" where
  "stripFrom c url = (let idx = Index url c in if idx \<noteq> - 1 then take (nat idx) url else url)"

text \<open>The text \<^verbatim>\<open>NormalizeURL\<close> matches against: trailing slashes, the query, the
  fragment and one \<^verbatim>\<open>.git\<close> suffix removed, in this order.\<close>

definition stripped :: "string \<Rightarrow> string" where
  "stripped inputURL =
     TrimSuffix (stripFrom (CHR ''#'') (stripFrom (CHR ''?'') (TrimRight inputURL ''/''))) ''.git''"

definition NormalizeURL :: "string \<Rightarrow> URLInfo" where
  "NormalizeURL inputURL =
     (let url = stripped inputURL in
      case treePathRe url of
        Some (m1, m2, m3) \<Rightarrow>
          \<lparr>URL = m1 @ ''.git'', Branch = m2, Path = TrimRight m3 ''/''\<rparr>
      | None \<Rightarrow>
         (case treeBranchRe url of
            Some (m1, m2) \<Rightarrow> \<lparr>URL = m1 @ ''.git'', Branch = m2, Path = []\<rparr>
          | None \<Rightarrow> \<lparr>URL = url @ ''.git'', Branch = [], Path = []\<rparr>))"


section \<open>The skill registry (\<^verbatim>\<open>internal/skills/skills.go\<close>)\<close>

text \<open>The stored form of a skill and the form handed to callers, which adds the
  identifier (the map key).\<close>

record storedSkill =
  CommitID :: string
  Type :: string
  Path :: string

record Skill = storedSkill +
  ID :: string

text \<open>
  The state of the file \<^verbatim>\<open>skills.json\<close>: it cannot be read, it does not parse as a
  JSON object of skills, or it holds such an object. The object is kept as an association
  list that stands for Go's \<^verbatim>\<open>map[string]storedSkill\<close>: the keys of a decoded map
  are unique, and the order of the list carries no meaning. Assumptions of the model:
  identifiers and fields are valid UTF-8, so that encoding and decoding a map gives the
  same map; \<^verbatim>\<open>os.WriteFile\<close>, whose error \<^verbatim>\<open>save\<close> drops, succeeds; the document
  is not the JSON literal \<^verbatim>\<open>null\<close> (which decodes to a nil map).
\<close>

datatype skillsFile = Unreadable | Malformed | Stored "(string \<times> storedSkill) list"

definition load :: "skillsFile \<Rightarrow> (string \<times> storedSkill) list" where
  "load f = (case f of Unreadable \<Rightarrow> [] | Malformed \<Rightarrow> [] | Stored skills \<Rightarrow> skills)"

definition save :: "(string \<times> storedSkill) list \<Rightarrow> skillsFile" where
  "save skills = Stored skills"

definition AddSkill :: "string \<Rightarrow> string \<Rightarrow> string \<Rightarrow> string \<Rightarrow> skillsFile \<Rightarrow> skillsFile" where
  "AddSkill ident skillType commitID skillPath f =
     (let skills = load f;
          s = \<lparr>CommitID = [], Type = skillType, Path = []\<rparr>;
          s = (if commitID \<noteq> [] then s\<lparr>CommitID := commitID\<rparr> else s);
          s = (if skillPath \<noteq> [] then s\<lparr>Path := skillPath\<rparr> else s)
      in save (AList.update ident s skills))"

definition RemoveSkill :: "string \<Rightarrow> skillsFile \<Rightarrow> skillsFile" where
  "RemoveSkill ident f = (let skills = load f in save (AList.delete ident skills))"

definition toSkill :: "string \<Rightarrow> storedSkill \<Rightarrow> Skill" where
  "toSkill ident stored =
     \<lparr>CommitID = CommitID stored, Type = Type stored, Path = Path stored, ID = ident\<rparr>"

definition GetSkill :: "string \<Rightarrow> skillsFile \<Rightarrow> Skill option" where
  "GetSkill ident f =
     (let skills = load f in
      case map_of skills ident of None \<Rightarrow> None | Some stored \<Rightarrow> Some (toSkill ident stored))"

definition UpdateSkillVersion :: "string \<Rightarrow> string \<Rightarrow> skillsFile \<Rightarrow> skillsFile" where
  "UpdateSkillVersion ident newCommitID f =
     (let skills = load f in
      case map_of skills ident of
        Some s \<Rightarrow> save (AList.update ident (s\<lparr>CommitID := newCommitID\<rparr>) skills)
      | None \<Rightarrow> f)"

text \<open>\<^verbatim>\<open>GetAllSkills\<close> collects the entries of the map and sorts them with
  \<^verbatim>\<open>sort.Slice\<close> on \<^verbatim>\<open>ID\<close>; Go compares strings byte by byte, which is the
  lexicographic order on \<^typ>\<open>string\<close>.\<close>

definition GetAllSkills :: "skillsFile \<Rightarrow> Skill list" where
  "GetAllSkills f =
     (let skills = load f in
      sort_key ID (map (\<lambda>(ident, stored). toSkill ident stored) skills))"


section \<open>Directories\<close>

text \<open>
  A directory tree as the program sees it. A symbolic link records only what it resolves
  to, which is all that \<^verbatim>\<open>os.Stat\<close> and \<^verbatim>\<open>os.Open\<close> depend on. The entries of
  a directory are listed as \<^verbatim>\<open>os.ReadDir\<close> returns them. Permissions and file modes
  are not modelled. Paths are kept as lists of components, so \<^verbatim>\<open>filepath.Join(p, name)\<close>
  for an entry name is \<open>p @ [name]\<close>.
\<close>

datatype target = Dangling | ToFile string | ToDir

datatype fsnode = File string | Dir "(string \<times> fsnode) list" | Link target

type_synonym path = "string list"

definition Base :: "path \<Rightarrow> string" where
  "Base p = (if p = [] then ''.'' else last p)"

text \<open>\<^verbatim>\<open>entry.IsDir()\<close> of a directory entry: a symbolic link is not a directory.\<close>

definition IsDir :: "fsnode \<Rightarrow> bool" where
  "IsDir node = (case node of Dir es \<Rightarrow> True | _ \<Rightarrow> False)"

text \<open>\<^verbatim>\<open>os.Stat(filepath.Join(root, entry.Name(), "SKILL.md"))\<close> returns no error: the
  entry is a directory with an entry \<^verbatim>\<open>SKILL.md\<close> that is not a dangling link.\<close>

definition hasSkillMd :: "fsnode \<Rightarrow> bool" where
  "hasSkillMd node =
     (case node of
        Dir es \<Rightarrow>
          (case map_of es ''SKILL.md'' of
             None \<Rightarrow> False
           | Some (Link Dangling) \<Rightarrow> False
           | Some md \<Rightarrow> True)
      | _ \<Rightarrow> False)"

text \<open>The loop of \<^verbatim>\<open>scanForSkills\<close> over the entries of \<open>root\<close>.\<close>

fun scanEntries :: "path \<Rightarrow> (string \<times> fsnode) list \<Rightarrow> path list" where
  "scanEntries root [] = []"
| "scanEntries root ((name, node) # entries) =
     (if \<not> IsDir node \<or> HasPrefix name ''.'' then scanEntries root entries
      else if hasSkillMd node then (root @ [name]) # scanEntries root entries
      else scanEntries root entries)"

text \<open>\<^verbatim>\<open>scanForSkills(root)\<close>; \<open>listing\<close> is the result of \<^verbatim>\<open>os.ReadDir(root)\<close>,
  \<open>None\<close> when it fails.\<close>

definition scanForSkills :: "path \<Rightarrow> (string \<times> fsnode) list option \<Rightarrow> path list" where
  "scanForSkills root listing =
     (case listing of None \<Rightarrow> [] | Some entries \<Rightarrow> scanEntries root entries)"

text \<open>\<^verbatim>\<open>copyFile\<close> (\<^verbatim>\<open>internal/commands/add.go\<close>): what is created at the
  destination, and whether the copy succeeded. \<^verbatim>\<open>os.Open\<close> follows a link; opening a
  directory succeeds, the destination is then created empty and reading fails.\<close>

fun copyFile :: "fsnode \<Rightarrow> fsnode option \<times> bool" where
  "copyFile (File c) = (Some (File c), True)"
| "copyFile (Link (ToFile c)) = (Some (File c), True)"
| "copyFile (Link Dangling) = (None, False)"
| "copyFile (Link ToDir) = (Some (File []), False)"
| "copyFile (Dir es) = (Some (File []), False)"

definition created :: "string \<Rightarrow> fsnode option \<Rightarrow> (string \<times> fsnode) list" where
  "created name made = (case made of None \<Rightarrow> [] | Some node \<Rightarrow> [(name, node)])"

text \<open>The loop of \<^verbatim>\<open>copyDir\<close> over the entries of the source, into a destination
  directory that has just been created: the entries created there, and whether every copy
  succeeded. The loop returns at the first error and leaves what it has created.\<close>

function copyDir :: "(string \<times> fsnode) list \<Rightarrow> (string \<times> fsnode) list \<times> bool" where
  "copyDir [] = ([], True)"
| "copyDir ((name, node) # entries) =
     (case node of
        Dir es \<Rightarrow>
          (case copyDir es of
             (d, False) \<Rightarrow> ([(name, Dir d)], False)
           | (d, True) \<Rightarrow>
               (case copyDir entries of (ds, ok) \<Rightarrow> ((name, Dir d) # ds, ok)))
      | _ \<Rightarrow>
          (case copyFile node of
             (made, False) \<Rightarrow> (created name made, False)
           | (made, True) \<Rightarrow>
               (case copyDir entries of (ds, ok) \<Rightarrow> (created name made @ ds, ok))))"
  by pat_completeness auto
termination
  by (relation "measure (size_list (size_prod (\<lambda>n. 0) size))") auto

text \<open>\<^verbatim>\<open>copyDir(skillDir, destPath)\<close> after \<^verbatim>\<open>os.RemoveAll(destPath)\<close>: what
  stands at the destination afterwards, and whether the copy succeeded. \<^verbatim>\<open>os.Stat\<close>
  of a missing source fails before anything is created; a source that is not a directory
  fails in \<^verbatim>\<open>os.ReadDir\<close>, after \<^verbatim>\<open>os.MkdirAll\<close> of the destination.
  \<^verbatim>\<open>SyncSkills\<close> copies the directories that the scan returned, and the scan skips
  links, so a source that is a link to a directory (whose entries the model does not
  hold) does not occur.\<close>

definition copySkill :: "fsnode option \<Rightarrow> fsnode option \<times> bool" where
  "copySkill src =
     (case src of
        None \<Rightarrow> (None, False)
      | Some (Dir es) \<Rightarrow> (case copyDir es of (d, ok) \<Rightarrow> (Some (Dir d), ok))
      | Some (Link Dangling) \<Rightarrow> (None, False)
      | Some other \<Rightarrow> (Some (Dir []), False))"


section \<open>The sync orchestrator (\<^verbatim>\<open>internal/commands/sync.go\<close>)\<close>

text \<open>\<^verbatim>\<open>project.Info\<close>; its field \<^verbatim>\<open>Type\<close> is named \<open>ToolType\<close> here.\<close>

record Info =
  ToolType :: string
  Root :: string
  SkillDir :: string

text \<open>
  What \<^verbatim>\<open>SyncSkills\<close> changes on disk:
  \<^item> \<open>skillsJson\<close>: the registry file \<^verbatim>\<open>repo/skills.json\<close>;
  \<^item> \<open>repoDir\<close>: the other entries of the repository directory, by name;
    \<^verbatim>\<open>cm.GetRepoPath(id)\<close> is the entry named \<open>GetSafeName id\<close>;
  \<^item> \<open>skillDirs\<close>: the entries of each project skill directory, by the directory's
    path (no entries when the directory does not exist).
  The three are taken to be separate places on disk, and different skill directory paths
  to be different directories.
\<close>

record syncState =
  skillsJson :: skillsFile
  repoDir :: "string \<rightharpoonup> fsnode"
  skillDirs :: "string \<Rightarrow> (string \<times> fsnode) list"

text \<open>\<^verbatim>\<open>os.RemoveAll(cm.GetRepoPath(id))\<close>.\<close>

definition RemoveAllRepo :: "string \<Rightarrow> syncState \<Rightarrow> syncState" where
  "RemoveAllRepo ident s = s\<lparr>repoDir := (repoDir s)(GetSafeName ident := None)\<rparr>"

text \<open>\<^verbatim>\<open>os.Remove\<close> removes a file, a link or an empty directory, and fails on a
  directory that has entries.\<close>

definition removable :: "fsnode \<Rightarrow> bool" where
  "removable node = (case node of Dir (e # es) \<Rightarrow> False | _ \<Rightarrow> True)"

definition removeSkillLinkIfPresent :: "string \<Rightarrow> Info \<Rightarrow> syncState \<Rightarrow> bool \<times> syncState" where
  "removeSkillLinkIfPresent skillID projectInfo s =
     (let dir = SkillDir projectInfo; linkName = GetLinkName skillID in
      case map_of (skillDirs s dir) linkName of
        None \<Rightarrow> (False, s)
      | Some node \<Rightarrow>
          if removable node
          then (True, s\<lparr>skillDirs := (skillDirs s)(dir := AList.delete linkName (skillDirs s dir))\<rparr>)
          else (False, s))"

text \<open>The loop \<^verbatim>\<open>for _, p := range detectedProjects\<close> around
  \<^verbatim>\<open>removeSkillLinkIfPresent\<close>: the number of links removed, and the new state.\<close>

fun removeLinks :: "string \<Rightarrow> Info list \<Rightarrow> syncState \<Rightarrow> nat \<times> syncState" where
  "removeLinks skillID [] s = (0, s)"
| "removeLinks skillID (p # ps) s =
     (case removeSkillLinkIfPresent skillID p s of
        (b, s1) \<Rightarrow>
          (case removeLinks skillID ps s1 of
             (n, s2) \<Rightarrow> ((if b then 1 else 0) + n, s2)))"

text \<open>The loop of \<^verbatim>\<open>removeSkillsWithLinkName\<close> over the skills listed at its
  start: \<open>(removedSources, removedLinks)\<close> and the new state.\<close>

fun removeLoop ::
  "string \<Rightarrow> string \<Rightarrow> Info list \<Rightarrow> Skill list \<Rightarrow> syncState \<Rightarrow> (nat \<times> nat) \<times> syncState" where
  "removeLoop linkName keepID detectedProjects [] s = ((0, 0), s)"
| "removeLoop linkName keepID detectedProjects (skill # skills) s =
     (if ID skill = keepID then removeLoop linkName keepID detectedProjects skills s
      else if GetLinkName (ID skill) \<noteq> linkName
      then removeLoop linkName keepID detectedProjects skills s
      else
        (case removeLinks (ID skill) detectedProjects (RemoveAllRepo (ID skill) s) of
           (l, s1) \<Rightarrow>
             (case removeLoop linkName keepID detectedProjects skills
                     (s1\<lparr>skillsJson := RemoveSkill (ID skill) (skillsJson s1)\<rparr>) of
                ((removedSources, removedLinks), s2) \<Rightarrow>
                  ((removedSources + 1, removedLinks + l), s2))))"

definition removeSkillsWithLinkName ::
  "string \<Rightarrow> string \<Rightarrow> Info list \<Rightarrow> syncState \<Rightarrow> (nat \<times> nat) \<times> syncState" where
  "removeSkillsWithLinkName linkName keepID detectedProjects s =
     removeLoop linkName keepID detectedProjects (GetAllSkills (skillsJson s)) s"

text \<open>The counters \<^verbatim>\<open>SyncSkills\<close> prints.\<close>

record SyncReport =
  added :: nat
  updated :: nat
  unchanged :: nat
  replaced :: nat
  replacedLinks :: nat
  removed :: nat
  linkCleanup :: nat

definition noReport :: SyncReport where
  "noReport = \<lparr>added = 0, updated = 0, unchanged = 0, replaced = 0, replacedLinks = 0,
                removed = 0, linkCleanup = 0\<rparr>"

text \<open>
  The inputs of a sync that the program does not change: \<open>listing\<close>, the entries of the
  scan root in the registry clone (\<open>None\<close> when it cannot be listed), and \<open>commitOf\<close>,
  the first result of \<^verbatim>\<open>GetLocalPathCommitID\<close> for a skill directory (the empty
  string when git fails, as the source drops the error).

  The body of the first loop of \<^verbatim>\<open>SyncSkills\<close>, for one found skill directory.
\<close>

definition syncOne ::
  "(string \<times> fsnode) list option \<Rightarrow> (path \<Rightarrow> string) \<Rightarrow> Info list \<Rightarrow> path \<Rightarrow>
     SyncReport \<times> syncState \<Rightarrow> SyncReport \<times> syncState" where
  "syncOne listing commitOf detectedProjects skillDir acc =
     (case acc of (rep, s) \<Rightarrow>
      let skillName = Base skillDir;
          ident = ''registry:'' @ skillName
      in
      case removeSkillsWithLinkName skillName ident detectedProjects s of
        ((removedSources, removedLinks), s1) \<Rightarrow>
      let rep1 = (if removedSources > 0
                  then rep\<lparr>replaced := replaced rep + removedSources,
                           replacedLinks := replacedLinks rep + removedLinks\<rparr>
                  else rep);
          existing = GetSkill ident (skillsJson s1);
          src = (case listing of None \<Rightarrow> None | Some entries \<Rightarrow> map_of entries skillName)
      in
      case copySkill src of
        (dst, ok) \<Rightarrow>
      let s2 = s1\<lparr>repoDir := (repoDir s1)(GetSafeName ident := dst)\<rparr> in
      if \<not> ok then (rep1, s2)
      else
        let commitID = commitOf skillDir;
            s3 = s2\<lparr>skillsJson := AddSkill ident ''registry'' commitID [] (skillsJson s2)\<rparr>
        in
        case existing of
          None \<Rightarrow> (rep1\<lparr>added := added rep1 + 1\<rparr>, s3)
        | Some e \<Rightarrow>
            if CommitID e \<noteq> commitID then (rep1\<lparr>updated := updated rep1 + 1\<rparr>, s3)
            else (rep1\<lparr>unchanged := unchanged rep1 + 1\<rparr>, s3))"

text \<open>The second loop of \<^verbatim>\<open>SyncSkills\<close>, over the skills listed after the first:
  \<open>(removed, linkCleanup)\<close> and the new state.\<close>

fun pruneLoop ::
  "string list \<Rightarrow> Info list \<Rightarrow> Skill list \<Rightarrow> syncState \<Rightarrow> (nat \<times> nat) \<times> syncState" where
  "pruneLoop foundSet detectedProjects [] s = ((0, 0), s)"
| "pruneLoop foundSet detectedProjects (skill # skills) s =
     (if Type skill = ''registry'' \<and> ID skill \<notin> set foundSet
      then
        (case removeLinks (ID skill) detectedProjects (RemoveAllRepo (ID skill) s) of
           (l, s1) \<Rightarrow>
             (case pruneLoop foundSet detectedProjects skills
                     (s1\<lparr>skillsJson := RemoveSkill (ID skill) (skillsJson s1)\<rparr>) of
                ((removedCount, cleaned), s2) \<Rightarrow> ((removedCount + 1, cleaned + l), s2)))
      else pruneLoop foundSet detectedProjects skills s)"

text \<open>
  \<^verbatim>\<open>SyncSkills\<close> from the scan on (lines 94 to 190), that is once the registry clone
  is up to date. The steps before (the git version check, the registry URL, the clone or
  pull) either return without touching the state or succeed. The report is \<open>None\<close> when
  no skill is found and the function returns before its summary.
\<close>

definition SyncSkills ::
  "path \<Rightarrow> (string \<times> fsnode) list option \<Rightarrow> (path \<Rightarrow> string) \<Rightarrow> Info list \<Rightarrow>
     syncState \<Rightarrow> SyncReport option \<times> syncState" where
  "SyncSkills scanRoot listing commitOf detectedProjects s =
     (let foundSkills = scanForSkills scanRoot listing in
      if length foundSkills = 0 then (None, s)
      else
        case foldl (\<lambda>acc skillDir. syncOne listing commitOf detectedProjects skillDir acc)
               (noReport, s) foundSkills of
          (rep, s1) \<Rightarrow>
        let allSkills = GetAllSkills (skillsJson s1);
            foundSet = map (\<lambda>skillDir. ''registry:'' @ Base skillDir) foundSkills
        in
        case pruneLoop foundSet detectedProjects allSkills s1 of
          ((removedCount, cleaned), s2) \<Rightarrow>
            (Some (rep\<lparr>removed := removedCount, linkCleanup := cleaned\<rparr>), s2))"


section \<open>Notions for the properties of a sync\<close>

text \<open>The identifier \<^verbatim>\<open>SyncSkills\<close> gives a found skill directory of a given name.\<close>

definition registryID :: "string \<Rightarrow> string" where
  "registryID n = ''registry:'' @ n"

text \<open>The names of the skill directories a scan finds.\<close>

definition foundNames :: "path \<Rightarrow> (string \<times> fsnode) list option \<Rightarrow> string list" where
  "foundNames root listing = map Base (scanForSkills root listing)"

text \<open>A directory listing has entry names without a slash.\<close>

definition properNames :: "(string \<times> fsnode) list option \<Rightarrow> bool" where
  "properNames listing =
     (case listing of None \<Rightarrow> True
      | Some entries \<Rightarrow> list_all (\<lambda>e. CHR ''/'' \<notin> set (fst e)) entries)"

text \<open>
  The registries the model of a sync covers. \<open>repoDir\<close> and \<open>skillDirs\<close> are keyed by
  entry names, so the model follows the program where \<^verbatim>\<open>cm.GetRepoPath(id)\<close> is a
  direct entry of the repository directory other than \<^verbatim>\<open>skills.json\<close>, and where the
  link name of a record that the second loop may remove is an entry name:
  \<^item> every identifier has the form \<open>source:locator\<close> with no slash in the source (its
    directory name then has no slash and contains \<^verbatim>\<open>__\<close>);
  \<^item> the link name of an identifier of type \<^verbatim>\<open>registry\<close> is not empty, not
    \<^verbatim>\<open>.\<close> or \<^verbatim>\<open>..\<close>, and has no slash;
  \<^item> the keys are unique, as in any decoded map.
  File names are compared byte by byte (a case-sensitive file system).
\<close>

definition hasSource :: "string \<Rightarrow> bool" where
  "hasSource ident =
     (case Cut '':'' ident of None \<Rightarrow> False | Some (src, loc) \<Rightarrow> CHR ''/'' \<notin> set src)"

definition entryName :: "string \<Rightarrow> bool" where
  "entryName x = (x \<noteq> [] \<and> x \<noteq> ''.'' \<and> x \<noteq> ''..'' \<and> CHR ''/'' \<notin> set x)"

definition wellFormed :: "skillsFile \<Rightarrow> bool" where
  "wellFormed f =
     (distinct (map fst (load f))
      \<and> list_all (\<lambda>e. hasSource (fst e)
                     \<and> (Type (snd e) = ''registry'' \<longrightarrow> entryName (GetLinkName (fst e))))
          (load f))"

text \<open>No identifier of the registry shares its directory name with the identifier of a
  found skill, unless it is that identifier.\<close>

definition noCollision :: "string list \<Rightarrow> skillsFile \<Rightarrow> bool" where
  "noCollision names f =
     list_all (\<lambda>e. list_all (\<lambda>n. GetSafeName (fst e) = GetSafeName (''registry:'' @ n)
                                 \<longrightarrow> fst e = ''registry:'' @ n) names) (load f)"

text \<open>The identifiers the program itself writes: \<^verbatim>\<open>"github:" + userRepo\<close> and
  \<^verbatim>\<open>"local:" + name\<close> in \<^verbatim>\<open>internal/commands/add.go\<close>, and
  \<^verbatim>\<open>"registry:" + skillName\<close> with the name of a directory in \<^verbatim>\<open>SyncSkills\<close>.\<close>

definition toolIdentifier :: "string \<Rightarrow> bool" where
  "toolIdentifier k =
     (prefix ''github:'' k \<or> prefix ''local:'' k
      \<or> (prefix ''registry:'' k \<and> CHR ''/'' \<notin> set (drop 9 k)))"

text \<open>A project skill directory has no entry of the given name that \<^verbatim>\<open>os.Remove\<close>
  could delete: none at all, or a directory with entries. In particular it has no link of
  that name.\<close>

definition cleared :: "(string \<times> fsnode) list \<Rightarrow> string \<Rightarrow> bool" where
  "cleared entries name =
     (case map_of entries name of None \<Rightarrow> True | Some node \<Rightarrow> \<not> removable node)"

subsection \<open>Proof devices\<close>

text \<open>The two removal loops have the same body and differ in the skills they select.\<close>

fun dropLoop ::
  "(Skill \<Rightarrow> bool) \<Rightarrow> Info list \<Rightarrow> Skill list \<Rightarrow> syncState \<Rightarrow> (nat \<times> nat) \<times> syncState" where
  "dropLoop sel ps [] s = ((0, 0), s)"
| "dropLoop sel ps (skill # skills) s =
     (if sel skill
      then
        (case removeLinks (ID skill) ps (RemoveAllRepo (ID skill) s) of
           (l, s1) \<Rightarrow>
             (case dropLoop sel ps skills (s1\<lparr>skillsJson := RemoveSkill (ID skill) (skillsJson s1)\<rparr>) of
                ((a, b), s2) \<Rightarrow> ((a + 1, b + l), s2)))
      else dropLoop sel ps skills s)"

definition picked :: "(Skill \<Rightarrow> bool) \<Rightarrow> Skill list \<Rightarrow> string list" where
  "picked sel sks = map ID (filter sel sks)"

definition isStored :: "skillsFile \<Rightarrow> bool" where
  "isStored f = (case f of Stored m \<Rightarrow> True | _ \<Rightarrow> False)"

text \<open>The source directory of a found skill, as \<open>syncOne\<close> looks it up.\<close>

definition srcOf :: "(string \<times> fsnode) list option \<Rightarrow> string \<Rightarrow> fsnode option" where
  "srcOf listing n = (case listing of None \<Rightarrow> None | Some entries \<Rightarrow> map_of entries n)"

text \<open>The identifiers \<^verbatim>\<open>removeSkillsWithLinkName\<close> removes, and those the second
  loop removes.\<close>

definition dups :: "(string \<times> storedSkill) list \<Rightarrow> string \<Rightarrow> string \<Rightarrow> string set" where
  "dups l n keep = {k \<in> fst ` set l. k \<noteq> keep \<and> GetLinkName k = n}"

definition stale :: "(string \<times> storedSkill) list \<Rightarrow> string list \<Rightarrow> string set" where
  "stale l F = {k. \<exists>v. (k, v) \<in> set l \<and> Type v = ''registry'' \<and> k \<notin> set F}"

text \<open>What a sync establishes for a found name: no other identifier has its link name,
  its record is the fresh one when the copy succeeded (\<open>settled\<close>), and its directory
  holds what the copy made (\<open>placed\<close>).\<close>

definition settled ::
  "(string \<times> fsnode) list option \<Rightarrow> (path \<Rightarrow> string) \<Rightarrow> path \<Rightarrow> string \<Rightarrow> skillsFile \<Rightarrow> bool" where
  "settled listing commitOf root n f =
     (dups (load f) n (registryID n) = {}
      \<and> (snd (copySkill (srcOf listing n)) \<longrightarrow>
            isStored f \<and> map_of (load f) (registryID n)
              = Some \<lparr>CommitID = commitOf (root @ [n]), Type = ''registry'', Path = []\<rparr>))"

definition placed :: "(string \<times> fsnode) list option \<Rightarrow> string \<Rightarrow> syncState \<Rightarrow> bool" where
  "placed listing n s =
     (repoDir s (GetSafeName (registryID n)) = fst (copySkill (srcOf listing n)))"

definition collisionFree :: "string list \<Rightarrow> skillsFile \<Rightarrow> bool" where
  "collisionFree ns f =
     (\<forall>k \<in> fst ` set (load f). \<forall>n \<in> set ns.
        GetSafeName k = GetSafeName (registryID n) \<longrightarrow> k = registryID n)"

text \<open>The first loop of \<^verbatim>\<open>SyncSkills\<close>, over the names of the found directories.\<close>

definition syncLoop ::
  "(string \<times> fsnode) list option \<Rightarrow> (path \<Rightarrow> string) \<Rightarrow> Info list \<Rightarrow> path \<Rightarrow>
     SyncReport \<times> syncState \<Rightarrow> string list \<Rightarrow> SyncReport \<times> syncState" where
  "syncLoop listing commitOf ps root acc ns =
     foldl (\<lambda>acc n. syncOne listing commitOf ps (root @ [n]) acc) acc ns"

subsection \<open>Example data\<close>

definition registryDir :: path where
  "registryDir = [''home'', ''.agent-management'', ''registry'']"

definition commitC1 :: "path \<Rightarrow> string" where
  "commitC1 skillDir = ''c1''"

definition emptyRepo :: "string \<rightharpoonup> fsnode" where
  "emptyRepo name = None"

definition noLinks :: "string \<Rightarrow> (string \<times> fsnode) list" where
  "noLinks dir = []"

text \<open>A registry with the record \<^verbatim>\<open>registry:a/b\<close>, and an upstream registry with the
  skill directory \<^verbatim>\<open>a__b\<close>: both identifiers have the directory name
  \<^verbatim>\<open>registry__a__b\<close>.\<close>

definition clashState :: syncState where
  "clashState =
     \<lparr>skillsJson = Stored [(''registry:a/b'', \<lparr>CommitID = [], Type = ''registry'', Path = []\<rparr>)],
      repoDir = emptyRepo, skillDirs = noLinks\<rparr>"

definition clashListing :: "(string \<times> fsnode) list option" where
  "clashListing = Some [(''a__b'', Dir [(''SKILL.md'', File ''#'')])]"

text \<open>The setting of the test \<^verbatim>\<open>TestRemoveSkillsWithLinkName\<close>, with one more record
  that is no longer upstream: a skill \<^verbatim>\<open>create-migration\<close> imported from GitHub and
  from a local folder, linked into a project, and found in the registry clone.\<close>

definition demoRepo :: "string \<rightharpoonup> fsnode" where
  "demoRepo name =
     (if name = ''github__org__repo__skills__create-migration'' then Some (Dir [(''SKILL.md'', File ''g'')])
      else if name = ''local__create-migration'' then Some (Dir [(''SKILL.md'', File ''l'')])
      else if name = ''registry__old-skill'' then Some (Dir [(''SKILL.md'', File ''o'')])
      else None)"

definition demoLinks :: "string \<Rightarrow> (string \<times> fsnode) list" where
  "demoLinks dir =
     (if dir = ''project/.claude/skills''
      then [(''create-migration'', Link ToDir), (''old-skill'', Link ToDir)]
      else [])"

definition demoState :: syncState where
  "demoState =
     \<lparr>skillsJson = Stored
        [(''github:org/repo/skills/create-migration'',
            \<lparr>CommitID = ''abc123'', Type = ''github'', Path = ''skills/create-migration''\<rparr>),
         (''local:create-migration'', \<lparr>CommitID = [], Type = ''local'', Path = []\<rparr>),
         (''registry:old-skill'', \<lparr>CommitID = ''def456'', Type = ''registry'', Path = []\<rparr>)],
      repoDir = demoRepo, skillDirs = demoLinks\<rparr>"

definition demoListing :: "(string \<times> fsnode) list option" where
  "demoListing =
     Some [(''.git'', Dir [(''HEAD'', File ''ref'')]),
           (''README.md'', File ''readme''),
           (''create-migration'',
              Dir [(''SKILL.md'', File ''r''), (''references'', Dir [(''notes.md'', File ''n'')])])]"

definition demoProjects :: "Info list" where
  "demoProjects =
     [\<lparr>ToolType = ''claude'', Root = ''project'', SkillDir = ''project/.claude/skills''\<rparr>]"


section \<open>Evaluation of the URL normaliser\<close>

lemma stripped_feature:
  "stripped ''https://github.com/user/repo/tree/feature%2Fmy-work''
     = ''https://github.com/user/repo/tree/feature%2Fmy-work''"
  by (simp add: stripped_def TrimRight_def stripFrom_def Index_def TrimSuffix_def)

lemma stripped_tooling:
  "stripped ''https://github.com/user/repo/tree/main/skills/tooling?tab=readme#section''
     = ''https://github.com/user/repo/tree/main/skills/tooling''"
  by (simp add: stripped_def TrimRight_def stripFrom_def Index_def TrimSuffix_def)

lemma repoRe_user_repo:
  "repoRe (''https://github.com/user/repo'' @ CHR ''/'' # r)
     = Some (''https://github.com/user/repo'', CHR ''/'' # r)"
  by (simp add: repoRe_def lit_def seg_def)

text \<open>
  C1. For \<^verbatim>\<open>https://github.com/user/repo/tree/feature%2Fmy-work\<close> the claim expects
  the branch \<^verbatim>\<open>feature/my-work\<close>, as the repository's own test
  \<^verbatim>\<open>TestNormalizeURL\<close> ("tree encoded slash branch root") does. \<^verbatim>\<open>NormalizeURL\<close>
  has no percent-decoding step: it returns the branch as it stands in the URL,
  \<^verbatim>\<open>feature%2Fmy-work\<close>. The URL and the empty path are as claimed.
\<close>

theorem NormalizeURL_encoded_branch_not_decoded:
  "NormalizeURL ''https://github.com/user/repo/tree/feature%2Fmy-work''
     = \<lparr>URL = ''https://github.com/user/repo.git'', Branch = ''feature%2Fmy-work'', URLInfo.Path = ''''\<rparr>
   \<and> Branch (NormalizeURL ''https://github.com/user/repo/tree/feature%2Fmy-work'')
       \<noteq> ''feature/my-work''"
proof -
  have a: "treePathRe ''https://github.com/user/repo/tree/feature%2Fmy-work'' = None"
    using repoRe_user_repo [of "''tree/feature%2Fmy-work''"]
    by (simp add: treePathRe_def lit_def seg_def)
  have b: "treeBranchRe ''https://github.com/user/repo/tree/feature%2Fmy-work''
             = Some (''https://github.com/user/repo'', ''feature%2Fmy-work'')"
    using repoRe_user_repo [of "''tree/feature%2Fmy-work''"]
    by (simp add: treeBranchRe_def lit_def seg_def)
  show ?thesis
    by (simp add: NormalizeURL_def stripped_feature a b)
qed

text \<open>
  C5. For \<^verbatim>\<open>https://github.com/user/repo/tree/main/skills/tooling?tab=readme#section\<close>
  the query and the fragment are dropped and the result is the repository URL with
  \<^verbatim>\<open>.git\<close>, the branch \<^verbatim>\<open>main\<close> and the path \<^verbatim>\<open>skills/tooling\<close>.
\<close>

theorem NormalizeURL_query_fragment:
  "NormalizeURL ''https://github.com/user/repo/tree/main/skills/tooling?tab=readme#section''
     = \<lparr>URL = ''https://github.com/user/repo.git'', Branch = ''main'', URLInfo.Path = ''skills/tooling''\<rparr>"
proof -
  have a: "treePathRe ''https://github.com/user/repo/tree/main/skills/tooling''
             = Some (''https://github.com/user/repo'', ''main'', ''skills/tooling'')"
    using repoRe_user_repo [of "''tree/main/skills/tooling''"]
    by (simp add: treePathRe_def lit_def seg_def)
  show ?thesis
    by (simp add: NormalizeURL_def stripped_tooling a TrimRight_def)
qed


section \<open>Link names\<close>

lemma Cut_char: "c \<notin> set a \<Longrightarrow> Cut [c] (a @ c # b) = Some (a, b)"
  by (induction a) auto

lemma SplitN2_colon: "CHR '':'' \<notin> set src \<Longrightarrow> SplitN2 (src @ CHR '':'' # loc) '':'' = [src, loc]"
  by (simp add: SplitN2_def Cut_char)

lemma takeWhile_neq_all: "c \<notin> set xs \<Longrightarrow> takeWhile (\<lambda>x. x \<noteq> c) xs = xs"
  by (induction xs) auto

lemma takeWhile_neq_stop: "c \<notin> set xs \<Longrightarrow> takeWhile (\<lambda>x. x \<noteq> c) (xs @ c # ys) = xs"
  by (induction xs) auto

lemma dropWhile_neq_all: "c \<notin> set xs \<Longrightarrow> dropWhile (\<lambda>x. x \<noteq> c) xs = []"
  by (induction xs) auto

lemma dropWhile_neq_stop: "c \<notin> set xs \<Longrightarrow> dropWhile (\<lambda>x. x \<noteq> c) (xs @ c # ys) = c # ys"
  by (induction xs) auto

lemma last_segment:
  "(let idx = LastIndex name c in if idx \<ge> 0 then drop (nat (idx + 1)) name else name)
     = rev (takeWhile (\<lambda>x. x \<noteq> c) (rev name))"
proof (cases "c \<in> set name")
  case False
  then show ?thesis by (simp add: LastIndex_def takeWhile_neq_all)
next
  case True
  then have "c \<in> set (rev name)" by simp
  then obtain ys zs where r: "rev name = ys @ c # zs" and ys: "c \<notin> set ys"
    by (meson split_list_first)
  have n: "name = rev zs @ c # rev ys"
    using r by (metis rev_rev_ident rev_append rev.simps(2) append.assoc append_Cons append_Nil)
  have t: "takeWhile (\<lambda>x. x \<noteq> c) (rev name) = ys"
    using r ys by (simp add: takeWhile_neq_stop)
  have k: "nat (int (length zs) + 1) = Suc (length zs)" by simp
  show ?thesis
    using True t by (simp add: LastIndex_def Let_def n k)
qed

lemma GetLinkName_alt:
  "GetLinkName ident =
     rev (takeWhile (\<lambda>x. x \<noteq> CHR ''/'')
       (rev (case Cut '':'' ident of None \<Rightarrow> ident | Some (a, b) \<Rightarrow> b)))"
  unfolding GetLinkName_def SplitN2_def
  using last_segment [of _ "CHR ''/''"]
  by (auto simp: Let_def split: option.splits)

text \<open>
  C9. \<^verbatim>\<open>GetLinkName\<close> returns the last path segment of the locator and ignores the
  source prefix: \<^verbatim>\<open>local:figma-mcp\<close> gives \<^verbatim>\<open>figma-mcp\<close>,
  \<^verbatim>\<open>github:user/repo/my-skill\<close> gives \<^verbatim>\<open>my-skill\<close> and
  \<^verbatim>\<open>registry:team-skill\<close> gives \<^verbatim>\<open>team-skill\<close>. In general, for a source
  without a colon and a name without a slash, the link name of \<open>source:name\<close> and of
  \<open>source:dir/name\<close> is \<open>name\<close>.
\<close>

theorem GetLinkName_last_segment:
  "GetLinkName ''local:figma-mcp'' = ''figma-mcp''
   \<and> GetLinkName ''github:user/repo/my-skill'' = ''my-skill''
   \<and> GetLinkName ''registry:team-skill'' = ''team-skill''
   \<and> (CHR '':'' \<notin> set src \<and> CHR ''/'' \<notin> set name \<longrightarrow>
         GetLinkName (src @ '':'' @ name) = name
         \<and> GetLinkName (src @ '':'' @ dir @ ''/'' @ name) = name)"
  by (simp add: GetLinkName_alt Cut_char takeWhile_neq_all takeWhile_neq_stop)

theorem GetLinkName_last_segment_witness:
  "GetLinkName (''github'' @ '':'' @ ''my-skill'') = ''my-skill''
   \<and> GetLinkName (''github'' @ '':'' @ ''user/repo'' @ ''/'' @ ''my-skill'') = ''my-skill''"
proof -
  have h: "CHR '':'' \<notin> set ''github'' \<and> CHR ''/'' \<notin> set ''my-skill''" by simp
  show ?thesis
    using GetLinkName_last_segment [of "''github''" "''my-skill''" "''user/repo''"] h by blast
qed


section \<open>Directory names of identifiers\<close>

lemma enc_Cons:
  "ReplaceAll (c # cs) ''/'' ''__'' =
     (if c = CHR ''/'' then ''__'' @ ReplaceAll cs ''/'' ''__'' else c # ReplaceAll cs ''/'' ''__'')"
  by simp

lemma enc_no_slash: "CHR ''/'' \<notin> set (ReplaceAll s ''/'' ''__'')"
  by (induction s) (auto simp del: ReplaceAll.simps(2) simp add: enc_Cons)

lemma dec_hit:
  "prefix ''__'' (c # cs) \<Longrightarrow>
     ReplaceAll (c # cs) ''__'' ''/'' = CHR ''/'' # ReplaceAll (drop 1 cs) ''__'' ''/''"
  by (subst ReplaceAll.simps(2)) (auto simp del: ReplaceAll.simps(2))

lemma dec_miss:
  "\<not> prefix ''__'' (c # cs) \<Longrightarrow>
     ReplaceAll (c # cs) ''__'' ''/'' = c # ReplaceAll cs ''__'' ''/''"
  by (subst ReplaceAll.simps(2)) (auto simp del: ReplaceAll.simps(2))

lemma enc_starts_underscore:
  "prefix ''_'' (ReplaceAll s ''/'' ''__'') \<longleftrightarrow> prefix ''_'' s \<or> prefix ''/'' s"
  by (cases s) (auto simp del: ReplaceAll.simps(2) simp add: enc_Cons)

lemma dec_enc:
  "\<not> sublist ''__'' loc \<Longrightarrow> \<not> sublist ''_/'' loc \<Longrightarrow>
     ReplaceAll (ReplaceAll loc ''/'' ''__'') ''__'' ''/'' = loc"
proof (induction loc)
  case Nil
  then show ?case by simp
next
  case (Cons c cs)
  have cs: "\<not> sublist ''__'' cs" "\<not> sublist ''_/'' cs"
    using Cons.prems by (auto simp: sublist_Cons_right)
  have np: "\<not> prefix ''__'' (c # cs)" "\<not> prefix ''_/'' (c # cs)"
    using Cons.prems by (auto simp: sublist_Cons_right)
  show ?case
  proof (cases "c = CHR ''/''")
    case True
    then show ?thesis
      using Cons.IH [OF cs] by (simp del: ReplaceAll.simps(2) add: enc_Cons dec_hit)
  next
    case False
    have "\<not> prefix ''__'' (c # ReplaceAll cs ''/'' ''__'')"
      using np enc_starts_underscore [of cs] by (cases cs) auto
    then show ?thesis
      using False Cons.IH [OF cs] by (simp del: ReplaceAll.simps(2) add: enc_Cons dec_miss)
  qed
qed

lemma Cut_first:
  "\<not> sublist ''__'' src \<Longrightarrow> \<not> suffix ''_'' src \<Longrightarrow> Cut ''__'' (src @ ''__'' @ r) = Some (src, r)"
proof (induction src)
  case Nil
  then show ?case by simp
next
  case (Cons c cs)
  have a: "\<not> sublist ''__'' cs" using Cons.prems by (auto simp: sublist_Cons_right)
  have b: "\<not> suffix ''_'' cs" using Cons.prems by (auto simp: suffix_Cons)
  have c: "\<not> prefix ''__'' (c # cs @ ''__'' @ r)"
    using Cons.prems by (cases cs) (auto simp: sublist_Cons_right suffix_Cons)
  show ?case using Cons.IH [OF a b] c by simp
qed

text \<open>
  C4, as stated: for every identifier \<open>source:locator\<close> whose source and locator have no
  \<^verbatim>\<open>__\<close> (and whose source has no colon and no slash), decoding the directory name
  gives the identifier back. This fails when a path segment of the locator ends in an
  underscore: in \<^verbatim>\<open>github:user/repo_/skill\<close> the segment \<^verbatim>\<open>repo_\<close> and the
  encoded slash give three underscores, and decoding reads the first two as the slash.
  It fails in the same way when the source ends in an underscore, as in \<^verbatim>\<open>a_:b\<close>.
\<close>

theorem SafeName_roundtrip_counterexample:
  "CHR '':'' \<notin> set ''github'' \<and> CHR ''/'' \<notin> set ''github''
   \<and> \<not> sublist ''__'' ''github'' \<and> \<not> sublist ''__'' ''user/repo_/skill''
   \<and> GetSafeName (''github'' @ '':'' @ ''user/repo_/skill'') = ''github__user__repo___skill''
   \<and> ParseSafeName (GetSafeName (''github'' @ '':'' @ ''user/repo_/skill''))
       = ''github:user/repo/_skill''
   \<and> ParseSafeName (GetSafeName (''github'' @ '':'' @ ''user/repo_/skill''))
       \<noteq> ''github'' @ '':'' @ ''user/repo_/skill''
   \<and> CHR '':'' \<notin> set ''a_'' \<and> CHR ''/'' \<notin> set ''a_''
   \<and> \<not> sublist ''__'' ''a_'' \<and> \<not> sublist ''__'' ''b''
   \<and> GetSafeName (''a_'' @ '':'' @ ''b'') = ''a___b''
   \<and> ParseSafeName (GetSafeName (''a_'' @ '':'' @ ''b'')) = ''a:_b''
   \<and> ParseSafeName (GetSafeName (''a_'' @ '':'' @ ''b'')) \<noteq> ''a_'' @ '':'' @ ''b''"
  by (simp add: GetSafeName_def ParseSafeName_def SplitN2_def sublist_Cons_right)

text \<open>
  C4, amended: the round trip holds when, in addition, the source does not end in an
  underscore and no underscore stands before a slash in the locator. The identifier
  \<^verbatim>\<open>github:user/repo/path/to/skill\<close> is encoded as
  \<^verbatim>\<open>github__user__repo__path__to__skill\<close> and decoded back exactly.
\<close>

theorem SafeName_roundtrip:
  "GetSafeName ''github:user/repo/path/to/skill'' = ''github__user__repo__path__to__skill''
   \<and> ParseSafeName ''github__user__repo__path__to__skill'' = ''github:user/repo/path/to/skill''
   \<and> (CHR '':'' \<notin> set src \<and> CHR ''/'' \<notin> set src
        \<and> \<not> sublist ''__'' src \<and> \<not> sublist ''__'' loc
        \<and> \<not> suffix ''_'' src \<and> \<not> sublist ''_/'' loc \<longrightarrow>
          ParseSafeName (GetSafeName (src @ '':'' @ loc)) = src @ '':'' @ loc)"
proof (intro conjI impI)
  show "GetSafeName ''github:user/repo/path/to/skill'' = ''github__user__repo__path__to__skill''"
    by (simp add: GetSafeName_def SplitN2_def)
  show "ParseSafeName ''github__user__repo__path__to__skill'' = ''github:user/repo/path/to/skill''"
    by (simp add: ParseSafeName_def SplitN2_def)
next
  assume a: "CHR '':'' \<notin> set src \<and> CHR ''/'' \<notin> set src
        \<and> \<not> sublist ''__'' src \<and> \<not> sublist ''__'' loc
        \<and> \<not> suffix ''_'' src \<and> \<not> sublist ''_/'' loc"
  have "GetSafeName (src @ '':'' @ loc) = src @ ''__'' @ ReplaceAll loc ''/'' ''__''"
    using a by (simp add: GetSafeName_def SplitN2_colon del: ReplaceAll.simps(2))
  moreover have "ParseSafeName (src @ ''__'' @ ReplaceAll loc ''/'' ''__'')
      = src @ '':'' @ ReplaceAll (ReplaceAll loc ''/'' ''__'') ''__'' ''/''"
    using a Cut_first [of src "ReplaceAll loc ''/'' ''__''"]
    by (simp add: ParseSafeName_def SplitN2_def del: ReplaceAll.simps(2))
  ultimately show "ParseSafeName (GetSafeName (src @ '':'' @ loc)) = src @ '':'' @ loc"
    using a dec_enc [of loc] by simp
qed

theorem SafeName_roundtrip_witness:
  "ParseSafeName (GetSafeName (''github'' @ '':'' @ ''user/repo/path/to/skill''))
     = ''github'' @ '':'' @ ''user/repo/path/to/skill''"
proof -
  have h: "CHR '':'' \<notin> set ''github'' \<and> CHR ''/'' \<notin> set ''github''
        \<and> \<not> sublist ''__'' ''github'' \<and> \<not> sublist ''__'' ''user/repo/path/to/skill''
        \<and> \<not> suffix ''_'' ''github'' \<and> \<not> sublist ''_/'' ''user/repo/path/to/skill''"
    by (simp add: sublist_Cons_right suffix_to_prefix)
  show ?thesis
    using SafeName_roundtrip [of "''github''" "''user/repo/path/to/skill''"] h by blast
qed


section \<open>Idempotence of the URL normaliser\<close>

lemma set_stripFrom: "set (stripFrom c s) \<subseteq> set s"
  by (auto simp: stripFrom_def Let_def dest: in_set_takeD)

lemma stripFrom_absent: "c \<notin> set (stripFrom c s)"
proof (cases "c \<in> set s")
  case True
  have "take (length (takeWhile (\<lambda>x. x \<noteq> c) s)) s = takeWhile (\<lambda>x. x \<noteq> c) s"
    by (metis append_eq_conv_conj takeWhile_dropWhile_id)
  moreover have "c \<notin> set (takeWhile (\<lambda>x. x \<noteq> c) s)"
    by (auto dest: set_takeWhileD)
  ultimately show ?thesis using True by (simp add: stripFrom_def Index_def)
next
  case False
  then show ?thesis by (simp add: stripFrom_def Index_def)
qed

lemma stripFrom_id: "c \<notin> set s \<Longrightarrow> stripFrom c s = s"
  by (simp add: stripFrom_def Index_def)

lemma set_TrimSuffix: "set (TrimSuffix s suf) \<subseteq> set s"
  by (auto simp: TrimSuffix_def dest: in_set_takeD)

lemma stripped_clean:
  "CHR ''?'' \<notin> set (stripped s)" "CHR ''#'' \<notin> set (stripped s)"
  using set_TrimSuffix stripFrom_absent set_stripFrom unfolding stripped_def
  by (meson subsetD)+

lemma stripped_git:
  assumes "CHR ''?'' \<notin> set x" "CHR ''#'' \<notin> set x"
  shows "stripped (x @ ''.git'') = x"
proof -
  have "TrimRight (x @ ''.git'') ''/'' = x @ ''.git''"
    by (simp add: TrimRight_def)
  moreover have "stripFrom (CHR ''?'') (x @ ''.git'') = x @ ''.git''"
    using assms by (simp add: stripFrom_id)
  moreover have "stripFrom (CHR ''#'') (x @ ''.git'') = x @ ''.git''"
    using assms by (simp add: stripFrom_id)
  moreover have "TrimSuffix (x @ ''.git'') ''.git'' = x"
    by (simp add: TrimSuffix_def)
  ultimately show ?thesis by (simp add: stripped_def)
qed

lemma lit_Some: "lit p s = Some r \<Longrightarrow> s = p @ r"
  by (auto simp: lit_def prefix_def split: if_splits)

lemma seg_Some: "seg s = Some (a, r) \<Longrightarrow> s = a @ r \<and> a \<noteq> [] \<and> CHR ''/'' \<notin> set a"
  by (auto simp: seg_def Let_def split: if_splits dest: set_takeWhileD)

lemma seg_whole: "a \<noteq> [] \<Longrightarrow> CHR ''/'' \<notin> set a \<Longrightarrow> seg a = Some (a, [])"
  by (simp add: seg_def takeWhile_neq_all dropWhile_neq_all)

lemma seg_slash: "a \<noteq> [] \<Longrightarrow> CHR ''/'' \<notin> set a \<Longrightarrow> seg (a @ CHR ''/'' # r) = Some (a, CHR ''/'' # r)"
  by (simp add: seg_def takeWhile_neq_stop dropWhile_neq_stop)

lemma repoRe_Some:
  assumes "repoRe u = Some (m1, r)"
  shows "u = m1 @ r \<and> repoRe m1 = Some (m1, [])"
proof -
  from assms obtain r1 owner r2 r3 repo where
    1: "lit ''https://github.com/'' u = Some r1" and
    2: "seg r1 = Some (owner, r2)" and
    3: "lit ''/'' r2 = Some r3" and
    4: "seg r3 = Some (repo, r)" and
    5: "m1 = ''https://github.com/'' @ owner @ ''/'' @ repo"
    by (auto simp: repoRe_def split: option.splits)
  have u: "u = ''https://github.com/'' @ owner @ ''/'' @ repo @ r"
    using lit_Some [OF 1] seg_Some [OF 2] lit_Some [OF 3] seg_Some [OF 4] by simp
  have o: "owner \<noteq> []" "CHR ''/'' \<notin> set owner" using seg_Some [OF 2] by auto
  have p: "repo \<noteq> []" "CHR ''/'' \<notin> set repo" using seg_Some [OF 4] by auto
  have "repoRe (''https://github.com/'' @ owner @ ''/'' @ repo) = Some (m1, [])"
    using seg_slash [OF o, of repo] seg_whole [OF p] 5
    by (simp add: repoRe_def lit_def)
  then show ?thesis using u 5 by simp
qed

lemma repo_only_no_tree:
  assumes "repoRe u = Some (m1, r)"
  shows "treePathRe m1 = None" "treeBranchRe m1 = None"
  using repoRe_Some [OF assms] by (simp_all add: treePathRe_def treeBranchRe_def lit_def)

text \<open>The matchers accept exactly the texts the regular expressions describe, with the
  groups the expressions capture.\<close>

lemma lit_iff: "lit p s = Some r \<longleftrightarrow> s = p @ r"
  by (auto simp: lit_def prefix_def)

lemma seg_iff:
  "seg s = Some (a, r) \<longleftrightarrow>
     s = a @ r \<and> a \<noteq> [] \<and> CHR ''/'' \<notin> set a \<and> (r = [] \<or> hd r = CHR ''/'')"
proof
  assume s: "seg s = Some (a, r)"
  then have a: "a = takeWhile (\<lambda>c. c \<noteq> CHR ''/'') s" "r = dropWhile (\<lambda>c. c \<noteq> CHR ''/'') s" "a \<noteq> []"
    by (auto simp: seg_def Let_def split: if_splits)
  have "r = [] \<or> hd r = CHR ''/''"
    unfolding a(2) using hd_dropWhile [of "\<lambda>c. c \<noteq> CHR ''/''" s] by auto
  then show "s = a @ r \<and> a \<noteq> [] \<and> CHR ''/'' \<notin> set a \<and> (r = [] \<or> hd r = CHR ''/'')"
    using a by (auto dest: set_takeWhileD)
next
  assume h: "s = a @ r \<and> a \<noteq> [] \<and> CHR ''/'' \<notin> set a \<and> (r = [] \<or> hd r = CHR ''/'')"
  show "seg s = Some (a, r)"
  proof (cases r)
    case Nil
    then show ?thesis using h seg_whole [of a] by simp
  next
    case (Cons c cs)
    then have "c = CHR ''/''" using h by simp
    then show ?thesis using h Cons seg_slash [of a cs] by simp
  qed
qed

lemma treePathRe_iff:
  "treePathRe url = Some (m1, m2, m3) \<longleftrightarrow>
     (\<exists>owner repo. m1 = ''https://github.com/'' @ owner @ ''/'' @ repo
        \<and> url = m1 @ ''/tree/'' @ m2 @ ''/'' @ m3
        \<and> owner \<noteq> [] \<and> CHR ''/'' \<notin> set owner \<and> repo \<noteq> [] \<and> CHR ''/'' \<notin> set repo
        \<and> m2 \<noteq> [] \<and> CHR ''/'' \<notin> set m2 \<and> m3 \<noteq> [] \<and> CHR 0x0A \<notin> set m3)"
proof
  assume "treePathRe url = Some (m1, m2, m3)"
  then obtain r r5 r6 where
    1: "repoRe url = Some (m1, r)" and 2: "lit ''/tree/'' r = Some r5" and
    3: "seg r5 = Some (m2, r6)" and 4: "lit ''/'' r6 = Some m3" and
    5: "m3 \<noteq> []" "CHR 0x0A \<notin> set m3"
    by (auto simp: treePathRe_def split: option.splits if_splits)
  from 1 obtain r1 owner r2 r3 repo where
    a: "lit ''https://github.com/'' url = Some r1" "seg r1 = Some (owner, r2)"
       "lit ''/'' r2 = Some r3" "seg r3 = Some (repo, r)"
       "m1 = ''https://github.com/'' @ owner @ ''/'' @ repo"
    by (auto simp: repoRe_def split: option.splits)
  show "\<exists>owner repo. m1 = ''https://github.com/'' @ owner @ ''/'' @ repo
        \<and> url = m1 @ ''/tree/'' @ m2 @ ''/'' @ m3
        \<and> owner \<noteq> [] \<and> CHR ''/'' \<notin> set owner \<and> repo \<noteq> [] \<and> CHR ''/'' \<notin> set repo
        \<and> m2 \<noteq> [] \<and> CHR ''/'' \<notin> set m2 \<and> m3 \<noteq> [] \<and> CHR 0x0A \<notin> set m3"
    using a 2 3 4 5 by (intro exI [of _ owner] exI [of _ repo]) (auto simp: lit_iff seg_iff)
next
  assume "\<exists>owner repo. m1 = ''https://github.com/'' @ owner @ ''/'' @ repo
        \<and> url = m1 @ ''/tree/'' @ m2 @ ''/'' @ m3
        \<and> owner \<noteq> [] \<and> CHR ''/'' \<notin> set owner \<and> repo \<noteq> [] \<and> CHR ''/'' \<notin> set repo
        \<and> m2 \<noteq> [] \<and> CHR ''/'' \<notin> set m2 \<and> m3 \<noteq> [] \<and> CHR 0x0A \<notin> set m3"
  then obtain owner repo where h: "m1 = ''https://github.com/'' @ owner @ ''/'' @ repo"
        "url = m1 @ ''/tree/'' @ m2 @ ''/'' @ m3"
        "owner \<noteq> []" "CHR ''/'' \<notin> set owner" "repo \<noteq> []" "CHR ''/'' \<notin> set repo"
        "m2 \<noteq> []" "CHR ''/'' \<notin> set m2" "m3 \<noteq> []" "CHR 0x0A \<notin> set m3"
    by blast
  have "repoRe url = Some (m1, ''/tree/'' @ m2 @ ''/'' @ m3)"
    using h seg_slash [of owner] seg_slash [of repo]
    by (simp add: repoRe_def lit_def)
  then show "treePathRe url = Some (m1, m2, m3)"
    using h seg_slash [of m2 m3] by (simp add: treePathRe_def lit_def)
qed

lemma treeBranchRe_iff:
  "treeBranchRe url = Some (m1, m2) \<longleftrightarrow>
     (\<exists>owner repo. m1 = ''https://github.com/'' @ owner @ ''/'' @ repo
        \<and> url = m1 @ ''/tree/'' @ m2
        \<and> owner \<noteq> [] \<and> CHR ''/'' \<notin> set owner \<and> repo \<noteq> [] \<and> CHR ''/'' \<notin> set repo
        \<and> m2 \<noteq> [] \<and> CHR ''/'' \<notin> set m2)"
proof
  assume "treeBranchRe url = Some (m1, m2)"
  then obtain r r5 where
    1: "repoRe url = Some (m1, r)" and 2: "lit ''/tree/'' r = Some r5" and
    3: "seg r5 = Some (m2, [])"
    by (auto simp: treeBranchRe_def split: option.splits if_splits)
  from 1 obtain r1 owner r2 r3 repo where
    a: "lit ''https://github.com/'' url = Some r1" "seg r1 = Some (owner, r2)"
       "lit ''/'' r2 = Some r3" "seg r3 = Some (repo, r)"
       "m1 = ''https://github.com/'' @ owner @ ''/'' @ repo"
    by (auto simp: repoRe_def split: option.splits)
  show "\<exists>owner repo. m1 = ''https://github.com/'' @ owner @ ''/'' @ repo
        \<and> url = m1 @ ''/tree/'' @ m2
        \<and> owner \<noteq> [] \<and> CHR ''/'' \<notin> set owner \<and> repo \<noteq> [] \<and> CHR ''/'' \<notin> set repo
        \<and> m2 \<noteq> [] \<and> CHR ''/'' \<notin> set m2"
    using a 2 3 by (intro exI [of _ owner] exI [of _ repo]) (auto simp: lit_iff seg_iff)
next
  assume "\<exists>owner repo. m1 = ''https://github.com/'' @ owner @ ''/'' @ repo
        \<and> url = m1 @ ''/tree/'' @ m2
        \<and> owner \<noteq> [] \<and> CHR ''/'' \<notin> set owner \<and> repo \<noteq> [] \<and> CHR ''/'' \<notin> set repo
        \<and> m2 \<noteq> [] \<and> CHR ''/'' \<notin> set m2"
  then obtain owner repo where h: "m1 = ''https://github.com/'' @ owner @ ''/'' @ repo"
        "url = m1 @ ''/tree/'' @ m2"
        "owner \<noteq> []" "CHR ''/'' \<notin> set owner" "repo \<noteq> []" "CHR ''/'' \<notin> set repo"
        "m2 \<noteq> []" "CHR ''/'' \<notin> set m2"
    by blast
  have "repoRe url = Some (m1, ''/tree/'' @ m2)"
    using h seg_slash [of owner] seg_slash [of repo]
    by (simp add: repoRe_def lit_def)
  then show "treeBranchRe url = Some (m1, m2)"
    using h seg_whole [of m2] by (simp add: treeBranchRe_def lit_def)
qed

lemma NormalizeURL_plain:
  assumes "CHR ''?'' \<notin> set x" "CHR ''#'' \<notin> set x" "treePathRe x = None" "treeBranchRe x = None"
  shows "NormalizeURL (x @ ''.git'') = \<lparr>URL = x @ ''.git'', Branch = [], Path = []\<rparr>"
  using assms stripped_git [OF assms(1,2)] by (simp add: NormalizeURL_def)

lemma URL_cases:
  "\<exists>x. URL (NormalizeURL s) = x @ ''.git'' \<and> CHR ''?'' \<notin> set x \<and> CHR ''#'' \<notin> set x
        \<and> treePathRe x = None \<and> treeBranchRe x = None"
proof -
  let ?u = "stripped s"
  have c: "CHR ''?'' \<notin> set ?u" "CHR ''#'' \<notin> set ?u" by (rule stripped_clean)+
  show ?thesis
  proof (cases "repoRe ?u")
    case None
    then have "treePathRe ?u = None" "treeBranchRe ?u = None"
      by (simp_all add: treePathRe_def treeBranchRe_def)
    then show ?thesis using c by (auto simp: NormalizeURL_def)
  next
    case (Some a)
    obtain m1 r where a: "a = (m1, r)" by (cases a)
    have re: "repoRe ?u = Some (m1, r)" using Some a by simp
    have m: "CHR ''?'' \<notin> set m1" "CHR ''#'' \<notin> set m1"
      using repoRe_Some [OF re] c by (metis Un_iff set_append)+
    have n: "treePathRe m1 = None" "treeBranchRe m1 = None"
      by (rule repo_only_no_tree [OF re])+
    have tp: "treePathRe ?u = None \<or> (\<exists>b p. treePathRe ?u = Some (m1, b, p))"
      using re by (auto simp: treePathRe_def split: option.splits)
    have tb: "treeBranchRe ?u = None \<or> (\<exists>b. treeBranchRe ?u = Some (m1, b))"
      using re by (auto simp: treeBranchRe_def split: option.splits)
    show ?thesis
      using tp tb m n c by (auto simp: NormalizeURL_def)
  qed
qed

text \<open>
  C6. Normalising the URL that \<^verbatim>\<open>NormalizeURL\<close> produced gives that URL again, for
  every input. The produced URL is a plain repository URL ending in \<^verbatim>\<open>.git\<close>: its
  result is itself with no branch and no path, and normalising once more changes nothing
  in the whole result.
\<close>

theorem NormalizeURL_idempotent:
  "URL (NormalizeURL (URL (NormalizeURL s))) = URL (NormalizeURL s)
   \<and> NormalizeURL (URL (NormalizeURL s))
       = \<lparr>URL = URL (NormalizeURL s), Branch = [], URLInfo.Path = []\<rparr>
   \<and> NormalizeURL (URL (NormalizeURL (URL (NormalizeURL s))))
       = NormalizeURL (URL (NormalizeURL s))"
proof -
  obtain x where x: "URL (NormalizeURL s) = x @ ''.git''"
      "CHR ''?'' \<notin> set x" "CHR ''#'' \<notin> set x"
      "treePathRe x = None" "treeBranchRe x = None"
    using URL_cases by blast
  have "NormalizeURL (x @ ''.git'') = \<lparr>URL = x @ ''.git'', Branch = [], URLInfo.Path = []\<rparr>"
    by (rule NormalizeURL_plain [OF x(2-5)])
  then show ?thesis using x(1) by simp
qed


section \<open>Registry operations\<close>

lemma AddSkill_stored:
  "AddSkill ident t c p f = Stored (AList.update ident \<lparr>CommitID = c, Type = t, Path = p\<rparr> (load f))"
  by (simp add: AddSkill_def save_def Let_def)

lemma load_Stored [simp]: "load (Stored m) = m"
  by (simp add: load_def)

lemma GetSkill_conv:
  "GetSkill ident f = map_option (toSkill ident) (map_of (load f) ident)"
  by (simp add: GetSkill_def Let_def split: option.splits)

lemma toSkill_update: "toSkill i (s\<lparr>CommitID := c\<rparr>) = (toSkill i s)\<lparr>CommitID := c\<rparr>"
  by (simp add: toSkill_def)

text \<open>
  C7. \<^verbatim>\<open>UpdateSkillVersion\<close> on an identifier the registry holds changes the commit
  id of that entry and nothing else: its type, path and identifier stay, every other
  identifier reads as before, and the keys are the same. On an identifier the registry
  does not hold, the file is left as it is (it is not written).
\<close>

theorem UpdateSkillVersion_frame:
  "(GetSkill ident f = Some sk \<longrightarrow>
      GetSkill ident (UpdateSkillVersion ident c f) = Some (sk\<lparr>CommitID := c\<rparr>)
      \<and> Type (sk\<lparr>CommitID := c\<rparr>) = Type sk \<and> Path (sk\<lparr>CommitID := c\<rparr>) = Path sk
      \<and> ID (sk\<lparr>CommitID := c\<rparr>) = ID sk
      \<and> (\<forall>other. other \<noteq> ident \<longrightarrow>
            GetSkill other (UpdateSkillVersion ident c f) = GetSkill other f)
      \<and> map fst (load (UpdateSkillVersion ident c f)) = map fst (load f))
   \<and> (GetSkill ident f = None \<longrightarrow> UpdateSkillVersion ident c f = f)"
proof (intro conjI impI)
  assume a: "GetSkill ident f = Some sk"
  then obtain s where s: "map_of (load f) ident = Some s" "sk = toSkill ident s"
    by (auto simp: GetSkill_conv)
  have u: "UpdateSkillVersion ident c f
             = Stored (AList.update ident (s\<lparr>CommitID := c\<rparr>) (load f))"
    using s by (simp add: UpdateSkillVersion_def save_def)
  show "GetSkill ident (UpdateSkillVersion ident c f) = Some (sk\<lparr>CommitID := c\<rparr>)"
    using s by (simp add: u GetSkill_conv update_conv' toSkill_update)
  show "\<forall>other. other \<noteq> ident \<longrightarrow>
          GetSkill other (UpdateSkillVersion ident c f) = GetSkill other f"
    by (simp add: u GetSkill_conv update_conv')
  have "ident \<in> fst ` set (load f)"
    using s(1) by (metis map_of_eq_None_iff option.distinct(1))
  then show "map fst (load (UpdateSkillVersion ident c f)) = map fst (load f)"
    by (simp add: u update_keys)
next
  assume "GetSkill ident f = None"
  then show "UpdateSkillVersion ident c f = f"
    by (simp add: GetSkill_conv UpdateSkillVersion_def)
qed simp_all

theorem UpdateSkillVersion_frame_witness:
  "GetSkill ''github:user/repo/a-skill''
     (UpdateSkillVersion ''github:user/repo/a-skill'' ''def456''
        (Stored [(''github:user/repo/a-skill'',
                    \<lparr>CommitID = ''abc123'', Type = ''github'', Path = ''skills/a-skill''\<rparr>),
                 (''local:local-skill'', \<lparr>CommitID = [], Type = ''local'', Path = []\<rparr>)]))
     = Some \<lparr>CommitID = ''def456'', Type = ''github'', Path = ''skills/a-skill'',
             ID = ''github:user/repo/a-skill''\<rparr>
   \<and> GetSkill ''local:local-skill''
     (UpdateSkillVersion ''github:user/repo/a-skill'' ''def456''
        (Stored [(''github:user/repo/a-skill'',
                    \<lparr>CommitID = ''abc123'', Type = ''github'', Path = ''skills/a-skill''\<rparr>),
                 (''local:local-skill'', \<lparr>CommitID = [], Type = ''local'', Path = []\<rparr>)]))
     = Some \<lparr>CommitID = [], Type = ''local'', Path = [], ID = ''local:local-skill''\<rparr>
   \<and> UpdateSkillVersion ''local:absent'' ''def456''
        (Stored [(''github:user/repo/a-skill'',
                    \<lparr>CommitID = ''abc123'', Type = ''github'', Path = ''skills/a-skill''\<rparr>),
                 (''local:local-skill'', \<lparr>CommitID = [], Type = ''local'', Path = []\<rparr>)])
     = Stored [(''github:user/repo/a-skill'',
                    \<lparr>CommitID = ''abc123'', Type = ''github'', Path = ''skills/a-skill''\<rparr>),
                 (''local:local-skill'', \<lparr>CommitID = [], Type = ''local'', Path = []\<rparr>)]"
proof -
  let ?f = "Stored [(''github:user/repo/a-skill'',
                    \<lparr>CommitID = ''abc123'', Type = ''github'', Path = ''skills/a-skill''\<rparr>),
                 (''local:local-skill'', \<lparr>CommitID = [], Type = ''local'', Path = []\<rparr>)]"
  have h1: "GetSkill ''github:user/repo/a-skill'' ?f
      = Some \<lparr>CommitID = ''abc123'', Type = ''github'', Path = ''skills/a-skill'',
             ID = ''github:user/repo/a-skill''\<rparr>"
    by (simp add: GetSkill_conv toSkill_def)
  have h2: "GetSkill ''local:absent'' ?f = None"
    by (simp add: GetSkill_conv)
  have h3: "GetSkill ''local:local-skill'' ?f
      = Some \<lparr>CommitID = [], Type = ''local'', Path = [], ID = ''local:local-skill''\<rparr>"
    by (simp add: GetSkill_conv toSkill_def)
  have h4: "''local:local-skill'' \<noteq> ''github:user/repo/a-skill''" by simp
  show ?thesis
    using UpdateSkillVersion_frame [of "''github:user/repo/a-skill''" ?f
        "\<lparr>CommitID = ''abc123'', Type = ''github'', Path = ''skills/a-skill'',
             ID = ''github:user/repo/a-skill''\<rparr>" "''def456''"]
      UpdateSkillVersion_frame [of "''local:absent''" ?f _ "''def456''"] h1 h2 h3 h4
    by simp
qed




section \<open>Scanning the registry clone\<close>

lemma scanEntries_iff:
  "p \<in> set (scanEntries root entries) \<longleftrightarrow>
     (\<exists>name node. p = root @ [name] \<and> (name, node) \<in> set entries \<and> IsDir node
         \<and> hasSkillMd node \<and> \<not> HasPrefix name ''.'')"
  by (induction root entries rule: scanEntries.induct) auto

lemma hasSkillMd_iff:
  "hasSkillMd node \<longleftrightarrow> (\<exists>es md. node = Dir es \<and> map_of es ''SKILL.md'' = Some md \<and> md \<noteq> Link Dangling)"
  by (auto simp: hasSkillMd_def split: fsnode.splits option.splits target.splits)

lemma IsDir_iff: "IsDir node \<longleftrightarrow> (\<exists>es. node = Dir es)"
  by (auto simp: IsDir_def split: fsnode.splits)

text \<open>
  C10. A path is returned by \<^verbatim>\<open>scanForSkills(root)\<close> exactly when it is a direct
  child of \<open>root\<close> that is a directory, has an entry \<^verbatim>\<open>SKILL.md\<close> (one that
  \<^verbatim>\<open>os.Stat\<close> finds) and has a name that does not begin with a dot. So a directory
  whose name begins with a dot is never returned, and neither is any path more than one
  level below \<open>root\<close>, wherever a \<^verbatim>\<open>SKILL.md\<close> may sit.
\<close>

theorem scanForSkills_direct_children:
  "(p \<in> set (scanForSkills root listing) \<longleftrightarrow>
      (\<exists>entries name es md. listing = Some entries \<and> p = root @ [name]
          \<and> (name, Dir es) \<in> set entries
          \<and> map_of es ''SKILL.md'' = Some md \<and> md \<noteq> Link Dangling
          \<and> \<not> HasPrefix name ''.''))
   \<and> (HasPrefix name ''.'' \<longrightarrow> root @ [name] \<notin> set (scanForSkills root listing))
   \<and> root @ name # sub # deeper \<notin> set (scanForSkills root listing)"
  by (cases listing) (auto simp: scanForSkills_def scanEntries_iff hasSkillMd_iff IsDir_iff)

theorem scanForSkills_direct_children_witness:
  "[''root'', ''.hidden-skill''] \<notin> set (scanForSkills [''root'']
     (Some [(''.hidden-skill'', Dir [(''SKILL.md'', File ''hidden'')]),
            (''skill-a'', Dir [(''SKILL.md'', File ''a'')]),
            (''skill-b'', Dir [(''nested'', Dir [(''SKILL.md'', File ''nested'')])])]))
   \<and> [''root'', ''skill-b'', ''nested''] \<notin> set (scanForSkills [''root'']
     (Some [(''.hidden-skill'', Dir [(''SKILL.md'', File ''hidden'')]),
            (''skill-a'', Dir [(''SKILL.md'', File ''a'')]),
            (''skill-b'', Dir [(''nested'', Dir [(''SKILL.md'', File ''nested'')])])]))
   \<and> scanForSkills [''root'']
     (Some [(''.hidden-skill'', Dir [(''SKILL.md'', File ''hidden'')]),
            (''skill-a'', Dir [(''SKILL.md'', File ''a'')]),
            (''skill-b'', Dir [(''nested'', Dir [(''SKILL.md'', File ''nested'')])])])
     = [[''root'', ''skill-a'']]"
proof -
  let ?l = "Some [(''.hidden-skill'', Dir [(''SKILL.md'', File ''hidden'')]),
            (''skill-a'', Dir [(''SKILL.md'', File ''a'')]),
            (''skill-b'', Dir [(''nested'', Dir [(''SKILL.md'', File ''nested'')])])]"
  have h: "HasPrefix ''.hidden-skill'' ''.''" by (simp add: HasPrefix_def)
  have e: "scanForSkills [''root''] ?l = [[''root'', ''skill-a'']]"
    by (simp add: scanForSkills_def IsDir_def hasSkillMd_def HasPrefix_def)
  show ?thesis
    using scanForSkills_direct_children [of _ "[''root'']" ?l "''.hidden-skill''"] h
      scanForSkills_direct_children [of _ "[''root'']" ?l "''skill-b''" "''nested''" "[]"] e
    by simp
qed


section \<open>The sync orchestrator: effects of the loops\<close>

lemma ReplaceAll_absent: "CHR ''/'' \<notin> set s \<Longrightarrow> ReplaceAll s ''/'' ''__'' = s"
  by (induction s) auto

lemma removeLoop_dropLoop:
  "removeLoop L keep ps sks s = dropLoop (\<lambda>sk. ID sk \<noteq> keep \<and> GetLinkName (ID sk) = L) ps sks s"
  by (induction sks arbitrary: s) (auto split: prod.splits)

lemma pruneLoop_dropLoop:
  "pruneLoop F ps sks s = dropLoop (\<lambda>sk. Type sk = ''registry'' \<and> ID sk \<notin> set F) ps sks s"
  by (induction sks arbitrary: s) (auto split: prod.splits)

lemma removeSkillLinkIfPresent_frame:
  "removeSkillLinkIfPresent k p s = (b, s1) \<Longrightarrow> skillsJson s1 = skillsJson s \<and> repoDir s1 = repoDir s"
  by (auto simp: removeSkillLinkIfPresent_def Let_def split: option.splits if_splits)

lemma removeSkillLinkIfPresent_mono:
  "removeSkillLinkIfPresent k p s = (b, s1) \<Longrightarrow>
     map_of (skillDirs s1 d) x = None \<or> map_of (skillDirs s1 d) x = map_of (skillDirs s d) x"
  by (auto simp: removeSkillLinkIfPresent_def Let_def delete_conv' split: option.splits if_splits)

lemma removeSkillLinkIfPresent_cleared:
  "removeSkillLinkIfPresent k p s = (b, s1) \<Longrightarrow> cleared (skillDirs s1 (SkillDir p)) (GetLinkName k)"
  by (auto simp: removeSkillLinkIfPresent_def Let_def delete_conv' cleared_def split: option.splits if_splits)

lemma cleared_mono:
  "cleared es x \<Longrightarrow> map_of es' x = None \<or> map_of es' x = map_of es x \<Longrightarrow> cleared es' x"
  by (auto simp: cleared_def split: option.splits)

lemma removeLinks_frame:
  "removeLinks k ps s = (n, s1) \<Longrightarrow> skillsJson s1 = skillsJson s \<and> repoDir s1 = repoDir s"
proof (induction ps arbitrary: s n)
  case Nil
  then show ?case by simp
next
  case (Cons p ps)
  then show ?case
    by (auto split: prod.splits dest!: removeSkillLinkIfPresent_frame)
qed

lemma removeLinks_mono:
  "removeLinks k ps s = (n, s1) \<Longrightarrow>
     map_of (skillDirs s1 d) x = None \<or> map_of (skillDirs s1 d) x = map_of (skillDirs s d) x"
proof (induction ps arbitrary: s n)
  case Nil
  then show ?case by simp
next
  case (Cons p ps)
  obtain b sa where a: "removeSkillLinkIfPresent k p s = (b, sa)" by fastforce
  obtain m where b: "removeLinks k ps sa = (m, s1)"
    using Cons.prems a by (auto split: prod.splits)
  show ?case
    using Cons.IH [OF b] removeSkillLinkIfPresent_mono [OF a, of d x] by auto
qed

lemma removeLinks_cleared:
  "removeLinks k ps s = (n, s1) \<Longrightarrow> p \<in> set ps \<Longrightarrow> cleared (skillDirs s1 (SkillDir p)) (GetLinkName k)"
proof (induction ps arbitrary: s n)
  case Nil
  then show ?case by simp
next
  case (Cons q ps)
  obtain b sa where a: "removeSkillLinkIfPresent k q s = (b, sa)" by fastforce
  obtain m where b: "removeLinks k ps sa = (m, s1)"
    using Cons.prems(1) a by (auto split: prod.splits)
  show ?case
  proof (cases "p \<in> set ps")
    case True
    then show ?thesis using Cons.IH [OF b] by simp
  next
    case False
    then have "p = q" using Cons.prems by simp
    then have "cleared (skillDirs sa (SkillDir p)) (GetLinkName k)"
      using removeSkillLinkIfPresent_cleared [OF a] by simp
    then show ?thesis
      using cleared_mono removeLinks_mono [OF b] by blast
  qed
qed

lemma load_RemoveSkill: "load (RemoveSkill k f) = filter (\<lambda>e. fst e \<noteq> k) (load f)"
  by (simp add: RemoveSkill_def save_def load_def AList.delete_eq case_prod_unfold eq_commute)

lemma dropLoop_effect:
  assumes "dropLoop sel ps sks s = (c, s1)"
  shows "load (skillsJson s1) = filter (\<lambda>e. fst e \<notin> set (picked sel sks)) (load (skillsJson s))
     \<and> repoDir s1 = (\<lambda>x. if x \<in> GetSafeName ` set (picked sel sks) then None else repoDir s x)
     \<and> (isStored (skillsJson s) \<longrightarrow> isStored (skillsJson s1))
     \<and> (\<forall>d x. map_of (skillDirs s1 d) x = None \<or> map_of (skillDirs s1 d) x = map_of (skillDirs s d) x)"
  using assms
proof (induction sks arbitrary: s c s1)
  case Nil
  then show ?case by (auto simp: picked_def)
next
  case (Cons sk sks)
  show ?case
  proof (cases "sel sk")
    case False
    then have "dropLoop sel ps sks s = (c, s1)" using Cons.prems by simp
    from Cons.IH [OF this] False show ?thesis
      by (simp add: picked_def)
  next
    case True
    obtain l sa where a: "removeLinks (ID sk) ps (RemoveAllRepo (ID sk) s) = (l, sa)" by fastforce
    let ?sb = "sa\<lparr>skillsJson := RemoveSkill (ID sk) (skillsJson sa)\<rparr>"
    obtain c' where b: "dropLoop sel ps sks ?sb = (c', s1)"
      using Cons.prems True a by (auto split: prod.splits)
    have fa: "skillsJson sa = skillsJson s" "repoDir sa = (repoDir s)(GetSafeName (ID sk) := None)"
      using removeLinks_frame [OF a] by (simp_all add: RemoveAllRepo_def)
    have ma: "\<And>d x. map_of (skillDirs sa d) x = None \<or> map_of (skillDirs sa d) x = map_of (skillDirs s d) x"
      using removeLinks_mono [OF a] by (simp add: RemoveAllRepo_def)
    have X: "set (picked sel (sk # sks)) = insert (ID sk) (set (picked sel sks))"
      using True by (simp add: picked_def)
    note ih = Cons.IH [OF b]
    have lb: "load (skillsJson ?sb) = filter (\<lambda>e. fst e \<noteq> ID sk) (load (skillsJson s))"
      using fa by (simp add: load_RemoveSkill)
    have ff: "filter (\<lambda>e. fst e \<notin> set (picked sel sks)) (filter (\<lambda>e. fst e \<noteq> ID sk) l)
          = filter (\<lambda>e. fst e \<notin> insert (ID sk) (set (picked sel sks))) l" for l :: "(string \<times> storedSkill) list"
      by (induction l) simp_all
    have 1: "load (skillsJson s1) = filter (\<lambda>e. fst e \<notin> set (picked sel (sk # sks))) (load (skillsJson s))"
      using ih lb ff unfolding X by simp
    have rb: "repoDir ?sb = (repoDir s)(GetSafeName (ID sk) := None)"
      using fa by simp
    have 2: "repoDir s1 = (\<lambda>x. if x \<in> GetSafeName ` set (picked sel (sk # sks)) then None else repoDir s x)"
      unfolding X using ih rb by (simp add: fun_eq_iff)
    have "isStored (skillsJson ?sb)"
      by (simp add: RemoveSkill_def save_def isStored_def)
    then have 3: "isStored (skillsJson s1)"
      using ih by blast
    have 4: "\<forall>d x. map_of (skillDirs s1 d) x = None \<or> map_of (skillDirs s1 d) x = map_of (skillDirs s d) x"
    proof (intro allI)
      fix d x
      have "map_of (skillDirs s1 d) x = None \<or> map_of (skillDirs s1 d) x = map_of (skillDirs ?sb d) x"
        using ih by blast
      moreover have "skillDirs ?sb = skillDirs sa" by simp
      ultimately show "map_of (skillDirs s1 d) x = None \<or> map_of (skillDirs s1 d) x = map_of (skillDirs s d) x"
        using ma [of d x] by auto
    qed
    show ?thesis using 1 2 3 4 by blast
  qed
qed

lemma dropLoop_none: "filter sel sks = [] \<Longrightarrow> dropLoop sel ps sks s = ((0, 0), s)"
  by (induction sks arbitrary: s) (auto split: if_splits)

lemma dropLoop_cleared:
  "dropLoop sel ps sks s = (c, s1) \<Longrightarrow> sk \<in> set sks \<Longrightarrow> sel sk \<Longrightarrow> p \<in> set ps \<Longrightarrow>
     cleared (skillDirs s1 (SkillDir p)) (GetLinkName (ID sk))"
proof (induction sks arbitrary: s c s1)
  case Nil
  then show ?case by simp
next
  case (Cons x sks)
  show ?case
  proof (cases "sel x")
    case False
    then have "dropLoop sel ps sks s = (c, s1)" "sk \<in> set sks"
      using Cons.prems by auto
    then show ?thesis using Cons.IH Cons.prems by blast
  next
    case True
    obtain l sa where a: "removeLinks (ID x) ps (RemoveAllRepo (ID x) s) = (l, sa)" by fastforce
    let ?sb = "sa\<lparr>skillsJson := RemoveSkill (ID x) (skillsJson sa)\<rparr>"
    obtain c' where b: "dropLoop sel ps sks ?sb = (c', s1)"
      using Cons.prems(1) True a by (auto split: prod.splits)
    show ?thesis
    proof (cases "sk \<in> set sks")
      case True
      then show ?thesis using Cons.IH [OF b] Cons.prems by blast
    next
      case False
      then have "sk = x" using Cons.prems by simp
      then have "cleared (skillDirs ?sb (SkillDir p)) (GetLinkName (ID sk))"
        using removeLinks_cleared [OF a Cons.prems(4)] by simp
      then show ?thesis
        using dropLoop_effect [OF b] cleared_mono by blast
    qed
  qed
qed

lemma set_GetAllSkills: "set (GetAllSkills f) = (\<lambda>(k, v). toSkill k v) ` set (load f)"
  by (simp add: GetAllSkills_def)

lemma ID_toSkill [simp]: "ID (toSkill k v) = k"
  by (simp add: toSkill_def)

lemma Type_toSkill [simp]: "Type (toSkill k v) = Type v"
  by (simp add: toSkill_def)

lemma CommitID_toSkill [simp]: "CommitID (toSkill k v) = CommitID v"
  by (simp add: toSkill_def)

lemma picked_dedup:
  "set (picked (\<lambda>sk. ID sk \<noteq> keep \<and> GetLinkName (ID sk) = n) (GetAllSkills f)) = dups (load f) n keep"
  by (force simp: picked_def dups_def set_GetAllSkills)

lemma picked_prune:
  "set (picked (\<lambda>sk. Type sk = ''registry'' \<and> ID sk \<notin> set F) (GetAllSkills f)) = stale (load f) F"
  by (force simp: picked_def stale_def set_GetAllSkills)

lemma picked_empty: "set (picked sel sks) = {} \<Longrightarrow> filter sel sks = []"
  by (simp add: picked_def)

lemma removeSkillsWithLinkName_effect:
  assumes "removeSkillsWithLinkName n keep ps s = (c, s1)"
  shows "load (skillsJson s1) = filter (\<lambda>e. fst e \<notin> dups (load (skillsJson s)) n keep) (load (skillsJson s))"
    and "repoDir s1 = (\<lambda>x. if x \<in> GetSafeName ` dups (load (skillsJson s)) n keep then None else repoDir s x)"
    and "isStored (skillsJson s) \<Longrightarrow> isStored (skillsJson s1)"
    and "map_of (skillDirs s1 d) x = None \<or> map_of (skillDirs s1 d) x = map_of (skillDirs s d) x"
  using dropLoop_effect [OF assms [unfolded removeSkillsWithLinkName_def removeLoop_dropLoop]]
  unfolding picked_dedup by blast+

lemma removeSkillsWithLinkName_none:
  "dups (load (skillsJson s)) n keep = {} \<Longrightarrow> removeSkillsWithLinkName n keep ps s = ((0, 0), s)"
  unfolding removeSkillsWithLinkName_def removeLoop_dropLoop
  by (rule dropLoop_none) (simp add: picked_empty picked_dedup)

lemma pruneLoop_effect:
  assumes "pruneLoop F ps (GetAllSkills (skillsJson s)) s = (c, s1)"
  shows "load (skillsJson s1) = filter (\<lambda>e. fst e \<notin> stale (load (skillsJson s)) F) (load (skillsJson s))"
    and "repoDir s1 = (\<lambda>x. if x \<in> GetSafeName ` stale (load (skillsJson s)) F then None else repoDir s x)"
    and "isStored (skillsJson s) \<Longrightarrow> isStored (skillsJson s1)"
    and "map_of (skillDirs s1 d) x = None \<or> map_of (skillDirs s1 d) x = map_of (skillDirs s d) x"
  using dropLoop_effect [OF assms [unfolded pruneLoop_dropLoop]]
  unfolding picked_prune by blast+

lemma pruneLoop_none:
  "stale (load (skillsJson s)) F = {} \<Longrightarrow> pruneLoop F ps (GetAllSkills (skillsJson s)) s = ((0, 0), s)"
  unfolding pruneLoop_dropLoop
  by (rule dropLoop_none) (simp add: picked_empty picked_prune)

lemma syncOne_unfold:
  "syncOne listing commitOf detectedProjects skillDir (rep, s) =
     (case removeSkillsWithLinkName (Base skillDir) (registryID (Base skillDir)) detectedProjects s of
        ((removedSources, removedLinks), s1) \<Rightarrow>
      let rep1 = (if removedSources > 0
                  then rep\<lparr>replaced := replaced rep + removedSources,
                           replacedLinks := replacedLinks rep + removedLinks\<rparr>
                  else rep);
          existing = GetSkill (registryID (Base skillDir)) (skillsJson s1)
      in
      case copySkill (srcOf listing (Base skillDir)) of
        (dst, ok) \<Rightarrow>
      let s2 = s1\<lparr>repoDir := (repoDir s1)(GetSafeName (registryID (Base skillDir)) := dst)\<rparr> in
      if \<not> ok then (rep1, s2)
      else
        let commitID = commitOf skillDir;
            s3 = s2\<lparr>skillsJson := AddSkill (registryID (Base skillDir)) ''registry'' commitID [] (skillsJson s2)\<rparr>
        in
        case existing of
          None \<Rightarrow> (rep1\<lparr>added := added rep1 + 1\<rparr>, s3)
        | Some e \<Rightarrow>
            if CommitID e \<noteq> commitID then (rep1\<lparr>updated := updated rep1 + 1\<rparr>, s3)
            else (rep1\<lparr>unchanged := unchanged rep1 + 1\<rparr>, s3))"
  unfolding syncOne_def registryID_def srcOf_def Let_def prod.case by (rule refl)

lemma syncOne_state:
  "snd (syncOne listing commitOf ps p (rep, s)) =
     (case removeSkillsWithLinkName (Base p) (registryID (Base p)) ps s of
        (c, sa) \<Rightarrow>
          (case copySkill (srcOf listing (Base p)) of
             (dst, ok) \<Rightarrow>
               if ok
               then sa\<lparr>repoDir := (repoDir sa)(GetSafeName (registryID (Base p)) := dst),
                       skillsJson := AddSkill (registryID (Base p)) ''registry'' (commitOf p) [] (skillsJson sa)\<rparr>
               else sa\<lparr>repoDir := (repoDir sa)(GetSafeName (registryID (Base p)) := dst)\<rparr>))"
  by (simp add: syncOne_unfold Let_def split: prod.splits option.splits)

lemma syncOne_effect:
  assumes "syncOne listing commitOf ps p (rep, s) = (rep1, s1)"
    and "copySkill (srcOf listing (Base p)) = (dst, ok)"
  shows "load (skillsJson s1) =
      (if ok
       then AList.update (registryID (Base p)) \<lparr>CommitID = commitOf p, Type = ''registry'', Path = []\<rparr>
              (filter (\<lambda>e. fst e \<notin> dups (load (skillsJson s)) (Base p) (registryID (Base p))) (load (skillsJson s)))
       else filter (\<lambda>e. fst e \<notin> dups (load (skillsJson s)) (Base p) (registryID (Base p))) (load (skillsJson s)))"
    and "repoDir s1 =
      (\<lambda>x. if x = GetSafeName (registryID (Base p)) then dst
           else if x \<in> GetSafeName ` dups (load (skillsJson s)) (Base p) (registryID (Base p)) then None
           else repoDir s x)"
    and "ok \<Longrightarrow> isStored (skillsJson s1)"
    and "isStored (skillsJson s) \<Longrightarrow> isStored (skillsJson s1)"
    and "map_of (skillDirs s1 d) x = None \<or> map_of (skillDirs s1 d) x = map_of (skillDirs s d) x"
proof -
  obtain c sa where a: "removeSkillsWithLinkName (Base p) (registryID (Base p)) ps s = (c, sa)"
    by fastforce
  note e = removeSkillsWithLinkName_effect [OF a]
  have s1: "s1 = (if ok
               then sa\<lparr>repoDir := (repoDir sa)(GetSafeName (registryID (Base p)) := dst),
                       skillsJson := AddSkill (registryID (Base p)) ''registry'' (commitOf p) [] (skillsJson sa)\<rparr>
               else sa\<lparr>repoDir := (repoDir sa)(GetSafeName (registryID (Base p)) := dst)\<rparr>)"
    using syncOne_state [of listing commitOf ps p rep s] assms a by simp
  show "load (skillsJson s1) =
      (if ok
       then AList.update (registryID (Base p)) \<lparr>CommitID = commitOf p, Type = ''registry'', Path = []\<rparr>
              (filter (\<lambda>e. fst e \<notin> dups (load (skillsJson s)) (Base p) (registryID (Base p))) (load (skillsJson s)))
       else filter (\<lambda>e. fst e \<notin> dups (load (skillsJson s)) (Base p) (registryID (Base p))) (load (skillsJson s)))"
    using e(1) by (simp add: s1 AddSkill_stored)
  show "repoDir s1 =
      (\<lambda>x. if x = GetSafeName (registryID (Base p)) then dst
           else if x \<in> GetSafeName ` dups (load (skillsJson s)) (Base p) (registryID (Base p)) then None
           else repoDir s x)"
    using e(2) by (auto simp: s1 fun_eq_iff)
  show "ok \<Longrightarrow> isStored (skillsJson s1)"
    by (simp add: s1 AddSkill_stored isStored_def)
  show "isStored (skillsJson s) \<Longrightarrow> isStored (skillsJson s1)"
    using e(3) by (simp add: s1 AddSkill_stored isStored_def)
  show "map_of (skillDirs s1 d) x = None \<or> map_of (skillDirs s1 d) x = map_of (skillDirs s d) x"
    using e(4) [of d x] by (simp add: s1)
qed

lemma syncOne_settled:
  assumes "dups (load (skillsJson s)) (Base p) (registryID (Base p)) = {}"
    and "copySkill (srcOf listing (Base p)) = (dst, ok)"
    and "ok \<Longrightarrow> isStored (skillsJson s) \<and> map_of (load (skillsJson s)) (registryID (Base p))
            = Some \<lparr>CommitID = commitOf p, Type = ''registry'', Path = []\<rparr>"
  shows "syncOne listing commitOf ps p (rep, s) =
      (if ok then rep\<lparr>unchanged := unchanged rep + 1\<rparr> else rep,
       s\<lparr>repoDir := (repoDir s)(GetSafeName (registryID (Base p)) := dst)\<rparr>)"
proof (cases ok)
  case False
  then show ?thesis
    using assms(2) removeSkillsWithLinkName_none [OF assms(1)]
    by (simp add: syncOne_unfold Let_def)
next
  case True
  let ?k = "registryID (Base p)"
  let ?v = "\<lparr>CommitID = commitOf p, Type = ''registry'', Path = []\<rparr>"
  have m: "map_of (load (skillsJson s)) ?k = Some ?v" and st: "isStored (skillsJson s)"
    using assms(3) True by auto
  have g: "GetSkill ?k (skillsJson s) = Some (toSkill ?k ?v)"
    using m by (simp add: GetSkill_conv)
  have "AList.update ?k ?v (load (skillsJson s)) = load (skillsJson s)"
    using m by (rule update_triv)
  then have ad: "AddSkill ?k ''registry'' (commitOf p) [] (skillsJson s) = skillsJson s"
    using st by (auto simp: AddSkill_stored isStored_def split: skillsFile.splits)
  show ?thesis
    using True assms(2) removeSkillsWithLinkName_none [OF assms(1)] g ad
    by (simp add: syncOne_unfold Let_def)
qed

lemma GetSafeName_registryID: "CHR ''/'' \<notin> set n \<Longrightarrow> GetSafeName (registryID n) = ''registry__'' @ n"
  using Cut_char [of "CHR '':''" "''registry''" n]
  by (simp add: registryID_def GetSafeName_def SplitN2_def ReplaceAll_absent del: ReplaceAll.simps(2))

lemma GetLinkName_registryID: "CHR ''/'' \<notin> set n \<Longrightarrow> GetLinkName (registryID n) = n"
  using Cut_char [of "CHR '':''" "''registry''" n]
  by (simp add: registryID_def GetLinkName_def SplitN2_def LastIndex_def)

lemma registryID_inj [simp]: "registryID m = registryID n \<longleftrightarrow> m = n"
  by (simp add: registryID_def)

lemma Base_child [simp]: "Base (root @ [n]) = n"
  by (simp add: Base_def)

lemma keys_filter: "fst ` set (filter (\<lambda>e. fst e \<notin> D) l) = fst ` set l - D"
  by auto

lemma map_of_filter_out: "j \<notin> D \<Longrightarrow> map_of (filter (\<lambda>e. fst e \<notin> D) l) j = map_of l j"
  by (induction l) auto

lemma syncOne_keys:
  assumes "syncOne listing commitOf ps (root @ [m]) (rep, s) = (rep1, s1)"
  shows "fst ` set (load (skillsJson s1)) \<subseteq> insert (registryID m) (fst ` set (load (skillsJson s)) - dups (load (skillsJson s)) m (registryID m))"
    and "fst ` set (load (skillsJson s)) - dups (load (skillsJson s)) m (registryID m) \<subseteq> fst ` set (load (skillsJson s1))"
proof -
  obtain dst ok where c: "copySkill (srcOf listing (Base (root @ [m]))) = (dst, ok)" by fastforce
  note e = syncOne_effect(1) [OF assms c]
  show "fst ` set (load (skillsJson s1)) \<subseteq> insert (registryID m) (fst ` set (load (skillsJson s)) - dups (load (skillsJson s)) m (registryID m))"
    unfolding e by (auto simp: dom_update keys_filter split: if_splits)
  show "fst ` set (load (skillsJson s)) - dups (load (skillsJson s)) m (registryID m) \<subseteq> fst ` set (load (skillsJson s1))"
    unfolding e by (auto simp: dom_update keys_filter split: if_splits)
qed

lemma syncOne_settles:
  assumes "syncOne listing commitOf ps (root @ [n]) (rep, s) = (rep1, s1)"
  shows "settled listing commitOf root n (skillsJson s1)"
proof -
  obtain dst ok where c: "copySkill (srcOf listing (Base (root @ [n]))) = (dst, ok)" by fastforce
  note e = syncOne_effect [OF assms c]
  have "dups (load (skillsJson s1)) n (registryID n) = {}"
    using syncOne_keys(1) [OF assms] by (auto simp: dups_def)
  moreover have "ok \<Longrightarrow> map_of (load (skillsJson s1)) (registryID n)
              = Some \<lparr>CommitID = commitOf (root @ [n]), Type = ''registry'', Path = []\<rparr>"
    unfolding e(1) by (simp add: update_conv')
  ultimately show ?thesis
    using e(3) c by (simp add: settled_def)
qed

lemma syncOne_keeps_settled:
  assumes "syncOne listing commitOf ps (root @ [m]) (rep, s) = (rep1, s1)"
    and "settled listing commitOf root n (skillsJson s)"
    and "m \<noteq> n" "CHR ''/'' \<notin> set m" "CHR ''/'' \<notin> set n"
  shows "settled listing commitOf root n (skillsJson s1)"
proof -
  obtain dst ok where c: "copySkill (srcOf listing (Base (root @ [m]))) = (dst, ok)" by fastforce
  note e = syncOne_effect [OF assms(1) c]
  have nd: "registryID n \<notin> dups (load (skillsJson s)) m (registryID m)"
    using assms(3,5) by (simp add: dups_def GetLinkName_registryID)
  have "dups (load (skillsJson s1)) n (registryID n) = {}"
  proof (rule ccontr)
    assume "dups (load (skillsJson s1)) n (registryID n) \<noteq> {}"
    then obtain j where j: "j \<in> fst ` set (load (skillsJson s1))" "j \<noteq> registryID n" "GetLinkName j = n"
      by (auto simp: dups_def)
    have "j \<noteq> registryID m" using j(3) assms(3,4) by (auto simp: GetLinkName_registryID)
    then have "j \<in> fst ` set (load (skillsJson s))"
      using syncOne_keys(1) [OF assms(1)] j(1) by auto
    then have "j \<in> dups (load (skillsJson s)) n (registryID n)"
      using j by (simp add: dups_def)
    then show False using assms(2) by (simp add: settled_def)
  qed
  moreover have "map_of (load (skillsJson s1)) (registryID n) = map_of (load (skillsJson s)) (registryID n)"
    unfolding e(1) using nd assms(3) 
    by (simp add: update_conv' map_of_filter_out)
  ultimately show ?thesis
    using assms(2) e(4) by (auto simp: settled_def)
qed

lemma syncOne_places:
  assumes "syncOne listing commitOf ps (root @ [n]) (rep, s) = (rep1, s1)"
  shows "placed listing n s1"
proof -
  obtain dst ok where c: "copySkill (srcOf listing (Base (root @ [n]))) = (dst, ok)" by fastforce
  show ?thesis
    using syncOne_effect(2) [OF assms c] c by (simp add: placed_def)
qed

lemma syncOne_keeps_placed:
  assumes "syncOne listing commitOf ps (root @ [m]) (rep, s) = (rep1, s1)"
    and "placed listing n s" "collisionFree ns (skillsJson s)" "n \<in> set ns"
    and "m \<noteq> n" "CHR ''/'' \<notin> set m" "CHR ''/'' \<notin> set n"
  shows "placed listing n s1"
proof -
  obtain dst ok where c: "copySkill (srcOf listing (Base (root @ [m]))) = (dst, ok)" by fastforce
  note e = syncOne_effect(2) [OF assms(1) c]
  have 1: "GetSafeName (registryID n) \<noteq> GetSafeName (registryID m)"
    using assms(5,6,7) by (simp add: GetSafeName_registryID)
  have 2: "GetSafeName (registryID n) \<notin> GetSafeName ` dups (load (skillsJson s)) m (registryID m)"
  proof
    assume "GetSafeName (registryID n) \<in> GetSafeName ` dups (load (skillsJson s)) m (registryID m)"
    then obtain j where j: "j \<in> dups (load (skillsJson s)) m (registryID m)" "GetSafeName j = GetSafeName (registryID n)"
      by auto
    then have "j = registryID n" using assms(3,4) by (auto simp: collisionFree_def dups_def)
    then show False using j(1) assms(5,7) by (simp add: dups_def GetLinkName_registryID)
  qed
  show ?thesis
    using assms(2) 1 2 unfolding placed_def e by simp
qed

lemma syncOne_keeps_collisionFree:
  assumes "syncOne listing commitOf ps (root @ [m]) (rep, s) = (rep1, s1)"
    and "collisionFree ns (skillsJson s)" "CHR ''/'' \<notin> set m" "\<forall>n\<in>set ns. CHR ''/'' \<notin> set n"
  shows "collisionFree ns (skillsJson s1)"
  unfolding collisionFree_def
proof (intro ballI impI)
  fix k n
  assume k: "k \<in> fst ` set (load (skillsJson s1))" and n: "n \<in> set ns"
    and e: "GetSafeName k = GetSafeName (registryID n)"
  show "k = registryID n"
  proof (cases "k = registryID m")
    case True
    then show ?thesis using e assms(3,4) n by (simp add: GetSafeName_registryID)
  next
    case False
    then have "k \<in> fst ` set (load (skillsJson s))"
      using syncOne_keys(1) [OF assms(1)] k by auto
    then show ?thesis using assms(2) n e by (auto simp: collisionFree_def)
  qed
qed

lemma syncLoop_Nil [simp]: "syncLoop listing commitOf ps root acc [] = acc"
  by (simp add: syncLoop_def)

lemma syncLoop_Cons [simp]:
  "syncLoop listing commitOf ps root acc (n # ns)
     = syncLoop listing commitOf ps root (syncOne listing commitOf ps (root @ [n]) acc) ns"
  by (simp add: syncLoop_def)

lemma syncLoop_keeps_settled:
  "settled listing commitOf root n (skillsJson (snd acc)) \<Longrightarrow> n \<notin> set ns \<Longrightarrow>
   CHR ''/'' \<notin> set n \<Longrightarrow> \<forall>m\<in>set ns. CHR ''/'' \<notin> set m \<Longrightarrow>
     settled listing commitOf root n (skillsJson (snd (syncLoop listing commitOf ps root acc ns)))"
proof (induction ns arbitrary: acc)
  case Nil
  then show ?case by simp
next
  case (Cons m ns)
  obtain rep s where acc: "acc = (rep, s)" by (cases acc)
  obtain rep1 s1 where st: "syncOne listing commitOf ps (root @ [m]) (rep, s) = (rep1, s1)"
    by fastforce
  have "settled listing commitOf root n (skillsJson s1)"
    using syncOne_keeps_settled [OF st] Cons.prems acc by auto
  then show ?case
    using Cons.IH [of "(rep1, s1)"] Cons.prems acc st by simp
qed

lemma syncLoop_settled:
  "\<forall>m\<in>set ns. CHR ''/'' \<notin> set m \<Longrightarrow> n \<in> set ns \<Longrightarrow>
     settled listing commitOf root n (skillsJson (snd (syncLoop listing commitOf ps root acc ns)))"
proof (induction ns arbitrary: acc)
  case Nil
  then show ?case by simp
next
  case (Cons m ns)
  obtain rep s where acc: "acc = (rep, s)" by (cases acc)
  obtain rep1 s1 where st: "syncOne listing commitOf ps (root @ [m]) (rep, s) = (rep1, s1)"
    by fastforce
  show ?case
  proof (cases "n \<in> set ns")
    case True
    then show ?thesis using Cons.IH [of "(rep1, s1)"] Cons.prems acc st by simp
  next
    case False
    then have nm: "n = m" using Cons.prems by simp
    have "settled listing commitOf root n (skillsJson (snd (rep1, s1)))"
      using syncOne_settles [OF st] nm by simp
    then show ?thesis
      using syncLoop_keeps_settled [of listing commitOf root n "(rep1, s1)" ns ps] False Cons.prems acc st
      by simp
  qed
qed

lemma syncLoop_keeps_collisionFree:
  "collisionFree NS (skillsJson (snd acc)) \<Longrightarrow> set ns \<subseteq> set NS \<Longrightarrow> \<forall>m\<in>set NS. CHR ''/'' \<notin> set m \<Longrightarrow>
     collisionFree NS (skillsJson (snd (syncLoop listing commitOf ps root acc ns)))"
proof (induction ns arbitrary: acc)
  case Nil
  then show ?case by simp
next
  case (Cons m ns)
  obtain rep s where acc: "acc = (rep, s)" by (cases acc)
  obtain rep1 s1 where st: "syncOne listing commitOf ps (root @ [m]) (rep, s) = (rep1, s1)"
    by fastforce
  have "collisionFree NS (skillsJson s1)"
    using syncOne_keeps_collisionFree [OF st] Cons.prems acc by auto
  then show ?case
    using Cons.IH [of "(rep1, s1)"] Cons.prems acc st by simp
qed

lemma syncLoop_keeps_placed:
  "placed listing n (snd acc) \<Longrightarrow> collisionFree NS (skillsJson (snd acc)) \<Longrightarrow> n \<in> set NS \<Longrightarrow> n \<notin> set ns \<Longrightarrow>
   set ns \<subseteq> set NS \<Longrightarrow> \<forall>m\<in>set NS. CHR ''/'' \<notin> set m \<Longrightarrow>
     placed listing n (snd (syncLoop listing commitOf ps root acc ns))"
proof (induction ns arbitrary: acc)
  case Nil
  then show ?case by simp
next
  case (Cons m ns)
  obtain rep s where acc: "acc = (rep, s)" by (cases acc)
  obtain rep1 s1 where st: "syncOne listing commitOf ps (root @ [m]) (rep, s) = (rep1, s1)"
    by fastforce
  have 1: "placed listing n s1"
    using syncOne_keeps_placed [OF st, of n NS] Cons.prems acc by auto
  have 2: "collisionFree NS (skillsJson s1)"
    using syncOne_keeps_collisionFree [OF st] Cons.prems acc by auto
  show ?case
    using Cons.IH [of "(rep1, s1)"] 1 2 Cons.prems acc st by simp
qed

lemma syncLoop_placed:
  "collisionFree NS (skillsJson (snd acc)) \<Longrightarrow> set ns \<subseteq> set NS \<Longrightarrow> \<forall>m\<in>set NS. CHR ''/'' \<notin> set m \<Longrightarrow>
   n \<in> set ns \<Longrightarrow> placed listing n (snd (syncLoop listing commitOf ps root acc ns))"
proof (induction ns arbitrary: acc)
  case Nil
  then show ?case by simp
next
  case (Cons m ns)
  obtain rep s where acc: "acc = (rep, s)" by (cases acc)
  obtain rep1 s1 where st: "syncOne listing commitOf ps (root @ [m]) (rep, s) = (rep1, s1)"
    by fastforce
  have 2: "collisionFree NS (skillsJson s1)"
    using syncOne_keeps_collisionFree [OF st] Cons.prems acc by auto
  show ?case
  proof (cases "n \<in> set ns")
    case True
    then show ?thesis using Cons.IH [of "(rep1, s1)"] 2 Cons.prems acc st by simp
  next
    case False
    then have nm: "n = m" using Cons.prems by simp
    have "placed listing n (snd (rep1, s1))"
      using syncOne_places [OF st] nm by simp
    then show ?thesis
      using syncLoop_keeps_placed [of listing n "(rep1, s1)" NS ns commitOf ps root] 2 False Cons.prems acc st
      by simp
  qed
qed

lemma prune_settled:
  assumes "pruneLoop (map registryID ns) ps (GetAllSkills (skillsJson s)) s = (c, s1)"
    and "settled listing commitOf root n (skillsJson s)" "n \<in> set ns"
  shows "settled listing commitOf root n (skillsJson s1)"
proof -
  note e = pruneLoop_effect [OF assms(1)]
  have r: "registryID n \<notin> stale (load (skillsJson s)) (map registryID ns)"
    using assms(3) by (simp add: stale_def)
  have "dups (load (skillsJson s1)) n (registryID n) \<subseteq> dups (load (skillsJson s)) n (registryID n)"
    unfolding e(1) by (auto simp: dups_def)
  moreover have "map_of (load (skillsJson s1)) (registryID n) = map_of (load (skillsJson s)) (registryID n)"
    unfolding e(1) using r by (rule map_of_filter_out)
  ultimately show ?thesis
    using assms(2) e(3) by (auto simp: settled_def)
qed

lemma prune_placed:
  assumes "pruneLoop (map registryID ns) ps (GetAllSkills (skillsJson s)) s = (c, s1)"
    and "placed listing n s" "collisionFree ns (skillsJson s)" "n \<in> set ns"
  shows "placed listing n s1"
proof -
  note e = pruneLoop_effect(2) [OF assms(1)]
  have "GetSafeName (registryID n) \<notin> GetSafeName ` stale (load (skillsJson s)) (map registryID ns)"
  proof
    assume "GetSafeName (registryID n) \<in> GetSafeName ` stale (load (skillsJson s)) (map registryID ns)"
    then obtain j where j: "j \<in> stale (load (skillsJson s)) (map registryID ns)" "GetSafeName j = GetSafeName (registryID n)"
      by auto
    then have "j \<in> fst ` set (load (skillsJson s))" by (force simp: stale_def)
    then have "j = registryID n" using assms(3,4) j(2) by (auto simp: collisionFree_def)
    then show False using j(1) assms(4) by (simp add: stale_def)
  qed
  then show ?thesis
    using assms(2) unfolding placed_def e by simp
qed

lemma prune_clean:
  assumes "pruneLoop F ps (GetAllSkills (skillsJson s)) s = (c, s1)"
  shows "stale (load (skillsJson s1)) F = {}"
  unfolding pruneLoop_effect(1) [OF assms] by (auto simp: stale_def)

lemma scan_child: "p \<in> set (scanForSkills root listing) \<Longrightarrow> p = root @ [Base p]"
  by (cases listing) (auto simp: scanForSkills_def scanEntries_iff)

lemma scan_paths: "scanForSkills root listing = map (\<lambda>n. root @ [n]) (foundNames root listing)"
proof -
  have "map ((\<lambda>n. root @ [n]) \<circ> Base) (scanForSkills root listing) = scanForSkills root listing"
    by (rule map_idI) (use scan_child in auto)
  then show ?thesis by (simp add: foundNames_def)
qed

lemma found_proper:
  "properNames listing \<Longrightarrow> n \<in> set (foundNames root listing) \<Longrightarrow> CHR ''/'' \<notin> set n"
  by (cases listing)
    (force simp: foundNames_def properNames_def scanForSkills_def scanEntries_iff list_all_iff)+

lemma collisionFree_noCollision: "collisionFree ns f \<longleftrightarrow> noCollision ns f"
  by (auto simp: collisionFree_def noCollision_def list_all_iff registryID_def)

lemma SyncSkills_unfold:
  "SyncSkills root listing commitOf ps s =
     (if foundNames root listing = [] then (None, s)
      else
        case syncLoop listing commitOf ps root (noReport, s) (foundNames root listing) of
          (rep, s1) \<Rightarrow>
            (case pruneLoop (map registryID (foundNames root listing)) ps (GetAllSkills (skillsJson s1)) s1 of
               ((removedCount, cleaned), s2) \<Rightarrow>
                 (Some (rep\<lparr>removed := removedCount, linkCleanup := cleaned\<rparr>), s2)))"
proof -
  have 1: "foldl (\<lambda>acc skillDir. syncOne listing commitOf ps skillDir acc) (noReport, s)
             (scanForSkills root listing)
        = syncLoop listing commitOf ps root (noReport, s) (foundNames root listing)"
    by (subst scan_paths) (simp add: syncLoop_def foldl_map)
  have 2: "map (\<lambda>skillDir. ''registry:'' @ Base skillDir) (scanForSkills root listing)
        = map registryID (foundNames root listing)"
    by (simp add: foundNames_def registryID_def)
  have 3: "(length (scanForSkills root listing) = 0) = (foundNames root listing = [])"
    by (simp add: foundNames_def)
  show ?thesis
    unfolding SyncSkills_def Let_def 1 2 3 by (rule refl)
qed

lemma syncLoop_settled_run:
  assumes "\<forall>n\<in>set ns. settled listing commitOf root n (skillsJson s)"
  shows "\<exists>rep1 g. syncLoop listing commitOf ps root (rep, s) ns = (rep1, s\<lparr>repoDir := g\<rparr>)
      \<and> added rep1 = added rep \<and> updated rep1 = updated rep \<and> replaced rep1 = replaced rep
      \<and> replacedLinks rep1 = replacedLinks rep
      \<and> (\<forall>x. g x = repoDir s x
             \<or> (\<exists>n\<in>set ns. x = GetSafeName (registryID n) \<and> g x = fst (copySkill (srcOf listing n))))"
  using assms
proof (induction ns arbitrary: rep s)
  case Nil
  have "s = s\<lparr>repoDir := repoDir s\<rparr>" by simp
  then show ?case by (metis syncLoop_Nil)
next
  case (Cons m ns)
  obtain dst ok where c: "copySkill (srcOf listing (Base (root @ [m]))) = (dst, ok)" by fastforce
  let ?rep = "if ok then rep\<lparr>unchanged := unchanged rep + 1\<rparr> else rep"
  let ?s = "s\<lparr>repoDir := (repoDir s)(GetSafeName (registryID m) := dst)\<rparr>"
  have m: "settled listing commitOf root m (skillsJson s)" using Cons.prems by simp
  have st: "syncOne listing commitOf ps (root @ [m]) (rep, s) = (?rep, ?s)"
    using syncOne_settled [of s "root @ [m]" listing dst ok commitOf ps rep] m c
    by (simp add: settled_def)
  have "\<forall>n\<in>set ns. settled listing commitOf root n (skillsJson ?s)"
    using Cons.prems by simp
  from Cons.IH [OF this, of ?rep] obtain rep1 g where
    r: "syncLoop listing commitOf ps root (?rep, ?s) ns = (rep1, ?s\<lparr>repoDir := g\<rparr>)"
      "added rep1 = added ?rep" "updated rep1 = updated ?rep" "replaced rep1 = replaced ?rep"
      "replacedLinks rep1 = replacedLinks ?rep"
      "\<forall>x. g x = repoDir ?s x
             \<or> (\<exists>n\<in>set ns. x = GetSafeName (registryID n) \<and> g x = fst (copySkill (srcOf listing n)))"
    by blast
  have 1: "syncLoop listing commitOf ps root (rep, s) (m # ns) = (rep1, s\<lparr>repoDir := g\<rparr>)"
    using st r(1) by simp
  have 2: "\<forall>x. g x = repoDir s x
             \<or> (\<exists>n\<in>set (m # ns). x = GetSafeName (registryID n) \<and> g x = fst (copySkill (srcOf listing n)))"
  proof
    fix x
    from r(6) have "g x = repoDir ?s x
             \<or> (\<exists>n\<in>set ns. x = GetSafeName (registryID n) \<and> g x = fst (copySkill (srcOf listing n)))"
      by blast
    then show "g x = repoDir s x
             \<or> (\<exists>n\<in>set (m # ns). x = GetSafeName (registryID n) \<and> g x = fst (copySkill (srcOf listing n)))"
      using c by (cases "x = GetSafeName (registryID m)") auto
  qed
  show ?case
    using 1 2 r(2-5) by (intro exI [of _ rep1] exI [of _ g]) simp
qed

lemma cleared_no_link: "cleared entries name \<Longrightarrow> map_of entries name \<noteq> Some (Link t)"
  by (auto simp: cleared_def removable_def)

lemma removeSkillsWithLinkName_cleared:
  assumes "removeSkillsWithLinkName n keep ps s = (c, s1)"
    and "k \<in> dups (load (skillsJson s)) n keep" "p \<in> set ps"
  shows "cleared (skillDirs s1 (SkillDir p)) n"
proof -
  from assms(2) obtain v where v: "(k, v) \<in> set (load (skillsJson s))" "k \<noteq> keep" "GetLinkName k = n"
    by (auto simp: dups_def)
  have 1: "toSkill k v \<in> set (GetAllSkills (skillsJson s))"
    using v(1) by (force simp: set_GetAllSkills)
  have 2: "ID (toSkill k v) \<noteq> keep \<and> GetLinkName (ID (toSkill k v)) = n"
    using v by simp
  show ?thesis
    using dropLoop_cleared [OF assms(1) [unfolded removeSkillsWithLinkName_def removeLoop_dropLoop] 1 2 assms(3)]
      v(3) by simp
qed

lemma syncOne_skillDirs:
  assumes "syncOne listing commitOf ps p (rep, s) = (rep1, s1)"
    and "removeSkillsWithLinkName (Base p) (registryID (Base p)) ps s = (c, sa)"
  shows "skillDirs s1 = skillDirs sa"
  using syncOne_state [of listing commitOf ps p rep s] assms
  by (auto split: prod.splits if_splits)

lemma syncOne_cleared:
  assumes "syncOne listing commitOf ps (root @ [n]) (rep, s) = (rep1, s1)"
    and "k \<in> dups (load (skillsJson s)) n (registryID n)" "p \<in> set ps"
  shows "cleared (skillDirs s1 (SkillDir p)) n"
proof -
  obtain c sa where a: "removeSkillsWithLinkName (Base (root @ [n])) (registryID (Base (root @ [n]))) ps s = (c, sa)"
    by fastforce
  have "cleared (skillDirs sa (SkillDir p)) n"
    using removeSkillsWithLinkName_cleared [OF a [simplified] assms(2,3)] .
  then show ?thesis using syncOne_skillDirs [OF assms(1) a] by simp
qed

lemma syncLoop_mono:
  "map_of (skillDirs (snd (syncLoop listing commitOf ps root acc ns)) d) x = None
   \<or> map_of (skillDirs (snd (syncLoop listing commitOf ps root acc ns)) d) x = map_of (skillDirs (snd acc) d) x"
proof (induction ns arbitrary: acc)
  case Nil
  then show ?case by simp
next
  case (Cons m ns)
  obtain rep s where acc: "acc = (rep, s)" by (cases acc)
  obtain rep1 s1 where st: "syncOne listing commitOf ps (root @ [m]) (rep, s) = (rep1, s1)"
    by fastforce
  obtain dst ok where c: "copySkill (srcOf listing (Base (root @ [m]))) = (dst, ok)" by fastforce
  show ?case
    using Cons.IH [of "(rep1, s1)"] syncOne_effect(5) [OF st c, of d x] acc st by auto
qed

lemma syncLoop_cleared:
  "k \<in> fst ` set (load (skillsJson s)) \<Longrightarrow> k \<noteq> registryID n \<Longrightarrow> GetLinkName k = n \<Longrightarrow> n \<in> set ns \<Longrightarrow>
   \<forall>m\<in>set ns. CHR ''/'' \<notin> set m \<Longrightarrow> p \<in> set ps \<Longrightarrow>
     cleared (skillDirs (snd (syncLoop listing commitOf ps root (rep, s) ns)) (SkillDir p)) n"
proof (induction ns arbitrary: rep s)
  case Nil
  then show ?case by simp
next
  case (Cons m ns)
  obtain rep1 s1 where st: "syncOne listing commitOf ps (root @ [m]) (rep, s) = (rep1, s1)"
    by fastforce
  show ?case
  proof (cases "m = n")
    case True
    have "k \<in> dups (load (skillsJson s)) n (registryID n)"
      using Cons.prems by (simp add: dups_def)
    then have "cleared (skillDirs s1 (SkillDir p)) n"
      using syncOne_cleared [OF st [unfolded True]] Cons.prems by blast
    then show ?thesis
      using syncLoop_mono [of listing commitOf ps root "(rep1, s1)" ns "SkillDir p" n] st cleared_mono
      by auto
  next
    case False
    have "k \<notin> dups (load (skillsJson s)) m (registryID m)"
      using False Cons.prems by (simp add: dups_def)
    then have "k \<in> fst ` set (load (skillsJson s1))"
      using syncOne_keys(2) [OF st] Cons.prems(1) by auto
    then show ?thesis
      using Cons.IH [of s1 rep1] Cons.prems False st by simp
  qed
qed

lemma syncOne_dir_stays_removed:
  assumes "syncOne listing commitOf ps (root @ [m]) (rep, s) = (rep1, s1)"
    and "repoDir s x = None" "x \<noteq> GetSafeName (registryID m)"
  shows "repoDir s1 x = None"
proof -
  obtain dst ok where c: "copySkill (srcOf listing (Base (root @ [m]))) = (dst, ok)" by fastforce
  show ?thesis
    using assms(2,3) unfolding syncOne_effect(2) [OF assms(1) c] by simp
qed

lemma syncLoop_dir_stays_removed:
  "repoDir (snd acc) x = None \<Longrightarrow> x \<notin> GetSafeName ` registryID ` set ns \<Longrightarrow>
     repoDir (snd (syncLoop listing commitOf ps root acc ns)) x = None"
proof (induction ns arbitrary: acc)
  case Nil
  then show ?case by simp
next
  case (Cons m ns)
  obtain rep s where acc: "acc = (rep, s)" by (cases acc)
  obtain rep1 s1 where st: "syncOne listing commitOf ps (root @ [m]) (rep, s) = (rep1, s1)"
    by fastforce
  have "repoDir s1 x = None"
    using syncOne_dir_stays_removed [OF st] Cons.prems acc by auto
  then show ?case
    using Cons.IH [of "(rep1, s1)"] Cons.prems acc st by simp
qed

lemma syncLoop_dir_removed:
  "k \<in> fst ` set (load (skillsJson s)) \<Longrightarrow> k \<noteq> registryID n \<Longrightarrow> GetLinkName k = n \<Longrightarrow> n \<in> set ns \<Longrightarrow>
   \<forall>m\<in>set ns. CHR ''/'' \<notin> set m \<Longrightarrow> GetSafeName k \<notin> GetSafeName ` registryID ` set ns \<Longrightarrow>
     repoDir (snd (syncLoop listing commitOf ps root (rep, s) ns)) (GetSafeName k) = None"
proof (induction ns arbitrary: rep s)
  case Nil
  then show ?case by simp
next
  case (Cons m ns)
  obtain rep1 s1 where st: "syncOne listing commitOf ps (root @ [m]) (rep, s) = (rep1, s1)"
    by fastforce
  obtain dst ok where c: "copySkill (srcOf listing (Base (root @ [m]))) = (dst, ok)" by fastforce
  have out: "GetSafeName k \<noteq> GetSafeName (registryID m)" "GetSafeName k \<notin> GetSafeName ` registryID ` set ns"
    using Cons.prems(6) by auto
  show ?case
  proof (cases "m = n")
    case True
    have "k \<in> dups (load (skillsJson s)) m (registryID m)"
      using Cons.prems True by (simp add: dups_def)
    then have "repoDir s1 (GetSafeName k) = None"
      using out(1) unfolding syncOne_effect(2) [OF st c] by simp
    then show ?thesis
      using syncLoop_dir_stays_removed [of "(rep1, s1)" "GetSafeName k" ns listing commitOf ps root] out(2) st
      by simp
  next
    case False
    have "k \<notin> dups (load (skillsJson s)) m (registryID m)"
      using False Cons.prems by (simp add: dups_def)
    then have "k \<in> fst ` set (load (skillsJson s1))"
      using syncOne_keys(2) [OF st] Cons.prems(1) by auto
    then show ?thesis
      using Cons.IH [of s1 rep1] Cons.prems False st out(2) by simp
  qed
qed

lemma syncOne_keeps_present:
  assumes "syncOne listing commitOf ps (root @ [m]) (rep, s) = (rep1, s1)"
    and "map_of (load (skillsJson s)) (registryID n) \<noteq> None" "CHR ''/'' \<notin> set m" "CHR ''/'' \<notin> set n"
  shows "map_of (load (skillsJson s1)) (registryID n) \<noteq> None"
proof -
  obtain dst ok where c: "copySkill (srcOf listing (Base (root @ [m]))) = (dst, ok)" by fastforce
  have nd: "registryID n \<notin> dups (load (skillsJson s)) m (registryID m)"
    using assms(3,4) by (auto simp: dups_def GetLinkName_registryID)
  show ?thesis
    unfolding syncOne_effect(1) [OF assms(1) c]
    using assms(2) nd by (simp add: update_conv' map_of_filter_out)
qed

lemma syncLoop_keeps_present:
  "map_of (load (skillsJson (snd acc))) (registryID n) \<noteq> None \<Longrightarrow> CHR ''/'' \<notin> set n \<Longrightarrow>
   \<forall>m\<in>set ns. CHR ''/'' \<notin> set m \<Longrightarrow>
     map_of (load (skillsJson (snd (syncLoop listing commitOf ps root acc ns)))) (registryID n) \<noteq> None"
proof (induction ns arbitrary: acc)
  case Nil
  then show ?case by simp
next
  case (Cons m ns)
  obtain rep s where acc: "acc = (rep, s)" by (cases acc)
  obtain rep1 s1 where st: "syncOne listing commitOf ps (root @ [m]) (rep, s) = (rep1, s1)"
    by fastforce
  have "map_of (load (skillsJson s1)) (registryID n) \<noteq> None"
    using syncOne_keeps_present [OF st] Cons.prems acc by auto
  then show ?case
    using Cons.IH [of "(rep1, s1)"] Cons.prems acc st by simp
qed


section \<open>The sync orchestrator: claims\<close>

lemma GetSafeName_source:
  "CHR '':'' \<notin> set src \<Longrightarrow> GetSafeName (src @ '':'' @ loc) = src @ ''__'' @ ReplaceAll loc ''/'' ''__''"
  using Cut_char [of "CHR '':''" src loc]
  by (simp add: GetSafeName_def SplitN2_def del: ReplaceAll.simps(2))

lemma foreign_safe_name:
  assumes "prefix ''github:'' k \<or> prefix ''local:'' k" "CHR ''/'' \<notin> set m"
  shows "GetSafeName k \<noteq> GetSafeName (registryID m)"
proof -
  have r: "hd (GetSafeName (registryID m)) = CHR ''r''"
    using assms(2) by (simp add: GetSafeName_registryID)
  from assms(1) have "hd (GetSafeName k) \<noteq> CHR ''r''"
  proof
    assume "prefix ''github:'' k"
    then obtain loc where "k = ''github'' @ '':'' @ loc" by (auto simp: prefix_def)
    then show ?thesis using GetSafeName_source [of "''github''" loc] by simp
  next
    assume "prefix ''local:'' k"
    then obtain loc where "k = ''local'' @ '':'' @ loc" by (auto simp: prefix_def)
    then show ?thesis using GetSafeName_source [of "''local''" loc] by simp
  qed
  then show ?thesis using r by metis
qed

lemma toolIdentifier_collisionFree:
  assumes "list_all (\<lambda>e. toolIdentifier (fst e)) (load f)" "\<forall>m\<in>set ns. CHR ''/'' \<notin> set m"
  shows "collisionFree ns f"
  unfolding collisionFree_def
proof (intro ballI impI)
  fix k n
  assume k: "k \<in> fst ` set (load f)" and n: "n \<in> set ns"
    and e: "GetSafeName k = GetSafeName (registryID n)"
  have sp: "toolIdentifier k" using assms(1) k by (auto simp: list_all_iff)
  have nn: "CHR ''/'' \<notin> set n" using assms(2) n by blast
  have "\<not> (prefix ''github:'' k \<or> prefix ''local:'' k)"
    using foreign_safe_name [OF _ nn] e by blast
  then have "prefix ''registry:'' k" "CHR ''/'' \<notin> set (drop 9 k)"
    using sp by (auto simp: toolIdentifier_def)
  then obtain x where x: "k = registryID x" "CHR ''/'' \<notin> set x"
    by (auto simp: prefix_def registryID_def)
  then show "k = registryID n"
    using e nn by (simp add: GetSafeName_registryID)
qed

lemma hasSource_entryName:
  assumes "hasSource k"
  shows "entryName (GetSafeName k) \<and> GetSafeName k \<noteq> ''skills.json''"
proof -
  from assms obtain src loc where c: "Cut '':'' k = Some (src, loc)" "CHR ''/'' \<notin> set src"
    by (auto simp: hasSource_def split: option.splits)
  have g: "GetSafeName k = src @ ''__'' @ ReplaceAll loc ''/'' ''__''"
    using c(1) by (simp add: GetSafeName_def SplitN2_def del: ReplaceAll.simps(2))
  have u: "CHR ''_'' \<in> set (GetSafeName k)" by (simp add: g)
  have "CHR ''/'' \<notin> set (GetSafeName k)"
    using c(2) enc_no_slash [of loc] by (simp add: g)
  moreover have "GetSafeName k \<noteq> []" by (simp add: g)
  moreover have "GetSafeName k \<noteq> ''.''" "GetSafeName k \<noteq> ''..''" "GetSafeName k \<noteq> ''skills.json''"
    using u by auto
  ultimately show ?thesis by (simp add: entryName_def)
qed




text \<open>
  C3. Let a record have an identifier other than \<^verbatim>\<open>registry:n\<close> and the link name
  \<open>n\<close>. \<^verbatim>\<open>removeSkillsWithLinkName\<close> for \<open>n\<close> removes it from the registry,
  removes its directory in the repository and leaves no link of the name \<open>n\<close> in any
  detected project, and it does not touch the record \<^verbatim>\<open>registry:n\<close>. When \<open>n\<close> is the
  name of a found skill, the same holds at the end of \<^verbatim>\<open>SyncSkills\<close>: the record is
  gone, no detected project has a link of that name, its directory is gone (unless a found
  skill has the same directory name, whose copy then stands there), and a record
  \<^verbatim>\<open>registry:n\<close> that was there is still there.
\<close>

theorem SyncSkills_dedup:
  assumes names: "properNames listing"
    and scope: "wellFormed (skillsJson s)"
    and key: "k \<in> fst ` set (load (skillsJson s))"
    and other: "k \<noteq> ''registry:'' @ n"
    and link: "GetLinkName k = n"
  shows "(removeSkillsWithLinkName n (''registry:'' @ n) ps s = (c, sa) \<longrightarrow>
            k \<notin> fst ` set (load (skillsJson sa))
            \<and> repoDir sa (GetSafeName k) = None
            \<and> (\<forall>p\<in>set ps. cleared (skillDirs sa (SkillDir p)) n)
            \<and> map_of (load (skillsJson sa)) (''registry:'' @ n)
                = map_of (load (skillsJson s)) (''registry:'' @ n))
       \<and> (n \<in> set (foundNames root listing) \<and> SyncSkills root listing commitOf ps s = (r, s1) \<longrightarrow>
            k \<notin> fst ` set (load (skillsJson s1))
            \<and> (\<forall>p\<in>set ps. cleared (skillDirs s1 (SkillDir p)) n)
            \<and> (\<forall>p\<in>set ps. \<forall>t. map_of (skillDirs s1 (SkillDir p)) n \<noteq> Some (Link t))
            \<and> (GetSafeName k \<notin> GetSafeName ` (\<lambda>m. ''registry:'' @ m) ` set (foundNames root listing) \<longrightarrow>
                 repoDir s1 (GetSafeName k) = None)
            \<and> (prefix ''github:'' k \<or> prefix ''local:'' k \<longrightarrow> repoDir s1 (GetSafeName k) = None)
            \<and> (map_of (load (skillsJson s)) (''registry:'' @ n) \<noteq> None \<longrightarrow>
                 map_of (load (skillsJson s1)) (''registry:'' @ n) \<noteq> None))"
proof (intro conjI impI)
  have kd: "k \<in> dups (load (skillsJson s)) n (registryID n)"
    using key other link by (simp add: dups_def registryID_def)
  have keep: "registryID n \<notin> dups (load (skillsJson s)) n (registryID n)"
    by (simp add: dups_def)
  {
    assume a: "removeSkillsWithLinkName n (''registry:'' @ n) ps s = (c, sa)"
    then have a': "removeSkillsWithLinkName n (registryID n) ps s = (c, sa)" by (simp add: registryID_def)
    note e = removeSkillsWithLinkName_effect [OF a']
    show "k \<notin> fst ` set (load (skillsJson sa))"
      unfolding e(1) using kd by auto
    show "repoDir sa (GetSafeName k) = None"
      unfolding e(2) using kd by simp
    show "\<forall>p\<in>set ps. cleared (skillDirs sa (SkillDir p)) n"
      using removeSkillsWithLinkName_cleared [OF a' kd] by blast
    show "map_of (load (skillsJson sa)) (''registry:'' @ n) = map_of (load (skillsJson s)) (''registry:'' @ n)"
      unfolding e(1) using keep map_of_filter_out [of "registryID n"] by (simp add: registryID_def)
  }
  {
    assume b: "n \<in> set (foundNames root listing) \<and> SyncSkills root listing commitOf ps s = (r, s1)"
    let ?ns = "foundNames root listing"
    have n: "n \<in> set ?ns" and ne: "?ns \<noteq> []" using b by auto
    have sl: "\<forall>m\<in>set ?ns. CHR ''/'' \<notin> set m"
      using found_proper [OF names] by blast
    obtain rp sb where l: "syncLoop listing commitOf ps root (noReport, s) ?ns = (rp, sb)" by fastforce
    obtain c' where pr: "pruneLoop (map registryID ?ns) ps (GetAllSkills (skillsJson sb)) sb = (c', s1)"
      using b ne l by (auto simp: SyncSkills_unfold split: prod.splits)
    note pe = pruneLoop_effect [OF pr]
    have "settled listing commitOf root n (skillsJson sb)"
      using syncLoop_settled [OF sl n, of listing commitOf root ps "(noReport, s)"] l by simp
    then have "settled listing commitOf root n (skillsJson s1)"
      using prune_settled [OF pr _ n] by blast
    then have "dups (load (skillsJson s1)) n (registryID n) = {}" by (simp add: settled_def)
    then show "k \<notin> fst ` set (load (skillsJson s1))"
      using other link by (auto simp: dups_def registryID_def)
    show cl: "\<forall>p\<in>set ps. cleared (skillDirs s1 (SkillDir p)) n"
    proof
      fix p assume p: "p \<in> set ps"
      have "cleared (skillDirs sb (SkillDir p)) n"
        using syncLoop_cleared [OF key _ link n sl p, of listing commitOf root noReport] other l
        by (simp add: registryID_def)
      then show "cleared (skillDirs s1 (SkillDir p)) n"
        using pe(4) cleared_mono by blast
    qed
    show "\<forall>p\<in>set ps. \<forall>t. map_of (skillDirs s1 (SkillDir p)) n \<noteq> Some (Link t)"
      using cl cleared_no_link by blast
    {
      assume o: "GetSafeName k \<notin> GetSafeName ` (\<lambda>m. ''registry:'' @ m) ` set ?ns"
      then have o': "GetSafeName k \<notin> GetSafeName ` registryID ` set ?ns"
        by (simp add: registryID_def [abs_def])
      have "repoDir sb (GetSafeName k) = None"
        using syncLoop_dir_removed [OF key _ link n sl o', of listing commitOf ps root noReport] other l
        by (simp add: registryID_def)
      then show "repoDir s1 (GetSafeName k) = None"
        unfolding pe(2) by simp
    }
    {
      assume f: "prefix ''github:'' k \<or> prefix ''local:'' k"
      have o': "GetSafeName k \<notin> GetSafeName ` registryID ` set ?ns"
        using foreign_safe_name [OF f] sl by auto
      have "repoDir sb (GetSafeName k) = None"
        using syncLoop_dir_removed [OF key _ link n sl o', of listing commitOf ps root noReport] other l
        by (simp add: registryID_def)
      then show "repoDir s1 (GetSafeName k) = None"
        unfolding pe(2) by simp
    }
    {
      assume "map_of (load (skillsJson s)) (''registry:'' @ n) \<noteq> None"
      then have "map_of (load (skillsJson sb)) (registryID n) \<noteq> None"
        using syncLoop_keeps_present [of "(noReport, s)" n ?ns listing commitOf ps root] sl n l
        by (simp add: registryID_def)
      moreover have "registryID n \<notin> stale (load (skillsJson sb)) (map registryID ?ns)"
        using n by (simp add: stale_def)
      ultimately show "map_of (load (skillsJson s1)) (''registry:'' @ n) \<noteq> None"
        unfolding pe(1) by (simp add: map_of_filter_out registryID_def)
    }
  }
qed

theorem SyncSkills_dedup_witness:
  "''github:org/repo/skills/create-migration''
      \<notin> fst ` set (load (skillsJson (snd (SyncSkills registryDir demoListing commitC1 demoProjects demoState))))
   \<and> repoDir (snd (SyncSkills registryDir demoListing commitC1 demoProjects demoState))
        (GetSafeName ''github:org/repo/skills/create-migration'') = None
   \<and> cleared (skillDirs (snd (SyncSkills registryDir demoListing commitC1 demoProjects demoState))
                ''project/.claude/skills'') ''create-migration''
   \<and> map_of (skillDirs (snd (SyncSkills registryDir demoListing commitC1 demoProjects demoState))
                ''project/.claude/skills'') ''create-migration'' = None
   \<and> GetSkill ''registry:create-migration''
        (skillsJson (snd (SyncSkills registryDir demoListing commitC1 demoProjects demoState)))
       = Some \<lparr>CommitID = ''c1'', Type = ''registry'', Path = [], ID = ''registry:create-migration''\<rparr>"
proof -
  let ?k = "''github:org/repo/skills/create-migration''"
  let ?run = "SyncSkills registryDir demoListing commitC1 demoProjects demoState"
  have 1: "properNames demoListing" by code_simp
  have 2: "wellFormed (skillsJson demoState)" by code_simp
  have 3: "?k \<in> fst ` set (load (skillsJson demoState))" by code_simp
  have 4: "?k \<noteq> ''registry:'' @ ''create-migration''" by simp
  have 5: "GetLinkName ?k = ''create-migration''" by code_simp
  have 6: "''create-migration'' \<in> set (foundNames registryDir demoListing)" by code_simp
  have 7: "?run = (fst ?run, snd ?run)" by simp
  have 8: "GetSafeName ?k \<notin> GetSafeName ` (\<lambda>m. ''registry:'' @ m) ` set (foundNames registryDir demoListing)"
    by code_simp
  have 9: "\<lparr>ToolType = ''claude'', Root = ''project'', SkillDir = ''project/.claude/skills''\<rparr>
             \<in> set demoProjects"
    by (simp add: demoProjects_def)
  have 10: "GetSkill ''registry:create-migration'' (skillsJson (snd ?run))
       = Some \<lparr>CommitID = ''c1'', Type = ''registry'', Path = [], ID = ''registry:create-migration''\<rparr>"
    by code_simp
  from SyncSkills_dedup [OF 1 2 3 4 5, of demoProjects _ _ registryDir commitC1 "fst ?run" "snd ?run"] 6 7 8
  have "?k \<notin> fst ` set (load (skillsJson (snd ?run)))"
    and "\<forall>p\<in>set demoProjects. cleared (skillDirs (snd ?run) (SkillDir p)) ''create-migration''"
    and "repoDir (snd ?run) (GetSafeName ?k) = None"
    by blast+
  moreover have "map_of (skillDirs (snd ?run) ''project/.claude/skills'') ''create-migration'' = None"
    by code_simp
  ultimately show ?thesis using 9 10 by force
qed

end
